theory Spec2Isabelle
  imports Complex_Main
begin

section \<open>JavaScript numbers\<close>

text \<open>
  Every number of \<^verbatim>\<open>mesh_tools.js\<close> is an IEEE-754 double. A finite double is
  modelled by the real number it denotes, next to the three special values. Zero is
  unsigned: the model has no \<^verbatim>\<open>-0\<close>.
\<close>

datatype jsnum = Num real | PInf | NInf | NaN

text \<open>
  The arithmetic is a parameter of every function below: \<open>rnd\<close> turns the exact
  result of an operation on finite operands into the number the operation returns, and
  \<open>Math_PI\<close> is the constant \<^verbatim>\<open>Math.PI\<close>. Two instances are used: \<open>exact\<close>
  (no rounding, real arithmetic) and \<open>ieee\<close> (round to nearest, ties to even, to
  binary64). Small integer literals of the source are written \<open>Num k\<close>: every binary
  floating-point format holds them exactly.
\<close>

record arith =
  rnd :: "real \<Rightarrow> jsnum"
  Math_PI :: jsnum

definition exact :: arith where
  "exact = \<lparr>rnd = Num, Math_PI = Num pi\<rparr>"

fun jneg :: "jsnum \<Rightarrow> jsnum" where
  "jneg (Num p) = Num (- p)"
| "jneg PInf = NInf"
| "jneg NInf = PInf"
| "jneg NaN = NaN"

fun jadd :: "arith \<Rightarrow> jsnum \<Rightarrow> jsnum \<Rightarrow> jsnum" where
  "jadd a (Num p) (Num q) = rnd a (p + q)"
| "jadd a NaN _ = NaN"
| "jadd a _ NaN = NaN"
| "jadd a PInf NInf = NaN"
| "jadd a NInf PInf = NaN"
| "jadd a PInf _ = PInf"
| "jadd a _ PInf = PInf"
| "jadd a NInf _ = NInf"
| "jadd a _ NInf = NInf"

definition jsub :: "arith \<Rightarrow> jsnum \<Rightarrow> jsnum \<Rightarrow> jsnum" where
  "jsub a p q = jadd a p (jneg q)"

fun jmul :: "arith \<Rightarrow> jsnum \<Rightarrow> jsnum \<Rightarrow> jsnum" where
  "jmul a (Num p) (Num q) = rnd a (p * q)"
| "jmul a NaN _ = NaN"
| "jmul a _ NaN = NaN"
| "jmul a (Num p) PInf = (if p = 0 then NaN else if 0 < p then PInf else NInf)"
| "jmul a (Num p) NInf = (if p = 0 then NaN else if 0 < p then NInf else PInf)"
| "jmul a PInf (Num q) = (if q = 0 then NaN else if 0 < q then PInf else NInf)"
| "jmul a NInf (Num q) = (if q = 0 then NaN else if 0 < q then NInf else PInf)"
| "jmul a PInf PInf = PInf"
| "jmul a PInf NInf = NInf"
| "jmul a NInf PInf = NInf"
| "jmul a NInf NInf = PInf"

fun jdiv :: "arith \<Rightarrow> jsnum \<Rightarrow> jsnum \<Rightarrow> jsnum" where
  "jdiv a (Num p) (Num q) =
     (if q = 0 then (if p = 0 then NaN else if 0 < p then PInf else NInf)
      else rnd a (p / q))"
| "jdiv a NaN _ = NaN"
| "jdiv a _ NaN = NaN"
| "jdiv a (Num p) _ = Num 0"
| "jdiv a PInf (Num q) = (if q < 0 then NInf else PInf)"
| "jdiv a NInf (Num q) = (if q < 0 then PInf else NInf)"
| "jdiv a _ _ = NaN"

fun jlt :: "jsnum \<Rightarrow> jsnum \<Rightarrow> bool" where
  "jlt (Num p) (Num q) = (p < q)"
| "jlt NaN _ = False"
| "jlt _ NaN = False"
| "jlt NInf NInf = False"
| "jlt NInf _ = True"
| "jlt PInf _ = False"
| "jlt (Num p) PInf = True"
| "jlt (Num p) NInf = False"

definition jgt :: "jsnum \<Rightarrow> jsnum \<Rightarrow> bool" where
  "jgt p q = jlt q p"

fun jsqrt :: "arith \<Rightarrow> jsnum \<Rightarrow> jsnum" where
  "jsqrt a (Num p) = (if p < 0 then NaN else rnd a (sqrt p))"
| "jsqrt a PInf = PInf"
| "jsqrt a NInf = NaN"
| "jsqrt a NaN = NaN"

fun jexp :: "arith \<Rightarrow> jsnum \<Rightarrow> jsnum" where
  "jexp a (Num p) = rnd a (exp p)"
| "jexp a PInf = PInf"
| "jexp a NInf = Num 0"
| "jexp a NaN = NaN"

fun jfloor :: "jsnum \<Rightarrow> jsnum" where
  "jfloor (Num p) = Num (of_int \<lfloor>p\<rfloor>)"
| "jfloor PInf = PInf"
| "jfloor NInf = NInf"
| "jfloor NaN = NaN"

text \<open>The angle of the point \<open>(x, y)\<close>, in \<open>(-\<pi>, \<pi>]\<close>.\<close>

definition atan2 :: "real \<Rightarrow> real \<Rightarrow> real" where
  "atan2 y x =
     (if 0 < x then arctan (y / x)
      else if x < 0 then (if 0 \<le> y then arctan (y / x) + pi else arctan (y / x) - pi)
      else if 0 < y then pi / 2
      else if y < 0 then - (pi / 2)
      else 0)"

fun jatan2 :: "arith \<Rightarrow> jsnum \<Rightarrow> jsnum \<Rightarrow> jsnum" where
  "jatan2 a (Num y) (Num x) = rnd a (atan2 y x)"
| "jatan2 a NaN _ = NaN"
| "jatan2 a _ NaN = NaN"
| "jatan2 a (Num y) PInf = Num 0"
| "jatan2 a (Num y) NInf = (if y < 0 then rnd a (- pi) else rnd a pi)"
| "jatan2 a PInf (Num x) = rnd a (pi / 2)"
| "jatan2 a NInf (Num x) = rnd a (- (pi / 2))"
| "jatan2 a PInf PInf = rnd a (pi / 4)"
| "jatan2 a PInf NInf = rnd a (3 * pi / 4)"
| "jatan2 a NInf PInf = rnd a (- (pi / 4))"
| "jatan2 a NInf NInf = rnd a (- (3 * pi / 4))"

section \<open>IEEE-754 rounding\<close>

text \<open>
  Round to nearest, ties to even, to binary64: 53 significant bits, exponents from
  \<open>-1022\<close> (below it the spacing stays \<open>2\<^sup>-\<^sup>1\<^sup>0\<^sup>7\<^sup>4\<close>), and overflow to infinity when the rounded
  magnitude reaches \<open>2\<^sup>1\<^sup>0\<^sup>2\<^sup>4\<close>. In the instance \<open>ieee\<close> every operation returns the
  rounded exact result, \<^verbatim>\<open>Math.atan2\<close>, \<^verbatim>\<open>Math.exp\<close> and \<^verbatim>\<open>Math.sqrt\<close> included, and
  \<^verbatim>\<open>Math.PI\<close> is the double nearest to \<open>\<pi>\<close>.
\<close>

definition round_even :: "real \<Rightarrow> int" where
  "round_even x =
     (let f = \<lfloor>x\<rfloor>; d = x - of_int f
      in if d < 1 / 2 then f else if 1 / 2 < d then f + 1 else if even f then f else f + 1)"

definition binary64 :: "real \<Rightarrow> jsnum" where
  "binary64 x =
     (if x = 0 then Num 0
      else let e = max \<lfloor>log 2 \<bar>x\<bar>\<rfloor> (- 1022);
               u = 2 powr (of_int e - 52);
               y = of_int (round_even (x / u)) * u
           in if 2 ^ 1024 \<le> \<bar>y\<bar> then (if 0 < x then PInf else NInf) else Num y)"

definition ieee :: arith where
  "ieee = \<lparr>rnd = binary64, Math_PI = Num (884279719003555 / 2 ^ 48)\<rparr>"

section \<open>Data model\<close>

text \<open>
  A point is a three-element array of numbers, a triangle a three-element array of
  indices into the point array.
\<close>

type_synonym point = "jsnum \<times> jsnum \<times> jsnum"
type_synonym triangle = "nat \<times> nat \<times> nat"

section \<open>Arrays and exceptions\<close>

text \<open>
  Reading \<^verbatim>\<open>xs[i]\<close> past the end of an array gives \<^verbatim>\<open>undefined\<close> (\<open>None\<close>);
  reading a component of \<^verbatim>\<open>undefined\<close>, or calling a method on it, throws a
  \<^verbatim>\<open>TypeError\<close>. The source has no \<^verbatim>\<open>throw\<close> of its own: the check in
  \<^verbatim>\<open>unwrapVectorArray\<close> is commented out.
\<close>

datatype js_error = TypeError

definition js_index :: "'a list \<Rightarrow> nat \<Rightarrow> 'a option" where
  "js_index xs i = (if i < length xs then Some (xs ! i) else None)"

text \<open>An array made by \<^verbatim>\<open>new Array(n)\<close> has holes: a hole reads as \<^verbatim>\<open>undefined\<close>.\<close>

definition js_index_holes :: "'a option list \<Rightarrow> nat \<Rightarrow> 'a option" where
  "js_index_holes xs i = (if i < length xs then xs ! i else None)"

definition element_of :: "'a option \<Rightarrow> js_error + 'a" where
  "element_of v = (case v of None \<Rightarrow> Inl TypeError | Some p \<Rightarrow> Inr p)"

text \<open>\<^verbatim>\<open>xs[i] = v\<close>: an assignment past the end extends the array with holes.\<close>

definition js_store :: "'a option list \<Rightarrow> nat \<Rightarrow> 'a \<Rightarrow> 'a option list" where
  "js_store xs i v =
     (if i < length xs then xs[i := Some v]
      else xs @ replicate (i - length xs) None @ [Some v])"

text \<open>
  A number read from a flat array and used in arithmetic: \<^verbatim>\<open>undefined\<close> converts to
  \<^verbatim>\<open>NaN\<close>.
\<close>

definition num_at :: "jsnum list \<Rightarrow> nat \<Rightarrow> jsnum" where
  "num_at xs i = (case js_index xs i of None \<Rightarrow> NaN | Some p \<Rightarrow> p)"

section \<open>The vector library\<close>

text \<open>
  Modelled from the spec: the functions \<^verbatim>\<open>vec2\<close>, \<^verbatim>\<open>vec3\<close> and \<^verbatim>\<open>mat2\<close> of the
  vector library the source calls are not among the source files. The spec asks of them
  that they "behave per standard linear algebra", and says that normalizing the zero
  vector produces \<^verbatim>\<open>NaN\<close>. A \<^verbatim>\<open>mat2\<close> is the array of its four entries, and the
  product is the library's \<^verbatim>\<open>multiply\<close> on those arrays.
\<close>

type_synonym vec2 = "jsnum \<times> jsnum"
type_synonym mat2 = "jsnum \<times> jsnum \<times> jsnum \<times> jsnum"

text \<open>
  Modelled from the spec: \<^verbatim>\<open>vec3.fromValues\<close> of the vector
  library, the vector of the three given components.
\<close>

definition vec3_fromValues :: "jsnum \<Rightarrow> jsnum \<Rightarrow> jsnum \<Rightarrow> point" where
  "vec3_fromValues p q r = (p, q, r)"

text \<open>
  Modelled from the spec: \<^verbatim>\<open>vec3.add\<close> of the vector library, the
  componentwise sum.
\<close>

fun vec3_add :: "arith \<Rightarrow> point \<Rightarrow> point \<Rightarrow> point" where
  "vec3_add a (ux, uy, uz) (vx, vy, vz) = (jadd a ux vx, jadd a uy vy, jadd a uz vz)"

text \<open>
  Modelled from the spec: \<^verbatim>\<open>vec3.dot\<close> of the vector library, the
  sum of the products of the components, added from left to right.
\<close>

fun vec3_dot :: "arith \<Rightarrow> point \<Rightarrow> point \<Rightarrow> jsnum" where
  "vec3_dot a (ux, uy, uz) (vx, vy, vz) =
     jadd a (jadd a (jmul a ux vx) (jmul a uy vy)) (jmul a uz vz)"

text \<open>
  Modelled from the spec: \<^verbatim>\<open>vec3.cross\<close> of the vector library, the
  cross product.
\<close>

fun vec3_cross :: "arith \<Rightarrow> point \<Rightarrow> point \<Rightarrow> point" where
  "vec3_cross a (ux, uy, uz) (vx, vy, vz) =
     (jsub a (jmul a uy vz) (jmul a uz vy),
      jsub a (jmul a uz vx) (jmul a ux vz),
      jsub a (jmul a ux vy) (jmul a uy vx))"

text \<open>
  Modelled from the spec: \<^verbatim>\<open>vec3.normalize\<close> of the vector library,
  the vector divided by its length. The zero vector gives \<^verbatim>\<open>NaN\<close>
  components (\<open>0 / 0\<close>).
\<close>

fun vec3_normalize :: "arith \<Rightarrow> point \<Rightarrow> point" where
  "vec3_normalize a (ux, uy, uz) =
     (let len = jsqrt a (vec3_dot a (ux, uy, uz) (ux, uy, uz))
      in (jdiv a ux len, jdiv a uy len, jdiv a uz len))"

text \<open>
  Modelled from the spec: \<^verbatim>\<open>vec2.fromValues\<close> of the vector
  library, the vector of the two given components.
\<close>

definition vec2_fromValues :: "jsnum \<Rightarrow> jsnum \<Rightarrow> vec2" where
  "vec2_fromValues p q = (p, q)"

text \<open>
  Modelled from the spec: \<^verbatim>\<open>vec2.normalize\<close> of the vector library,
  the vector divided by its length. The zero vector gives \<^verbatim>\<open>NaN\<close>
  components.
\<close>

fun vec2_normalize :: "arith \<Rightarrow> vec2 \<Rightarrow> vec2" where
  "vec2_normalize a (ux, uy) =
     (let len = jsqrt a (jadd a (jmul a ux ux) (jmul a uy uy))
      in (jdiv a ux len, jdiv a uy len))"

text \<open>
  Modelled from the spec: \<^verbatim>\<open>mat2.invert\<close> of the vector library,
  the adjugate divided by the determinant. A zero determinant is a division by zero in
  every entry.
\<close>

fun mat2_invert :: "arith \<Rightarrow> mat2 \<Rightarrow> mat2" where
  "mat2_invert a (a0, a1, a2, a3) =
     (let det = jsub a (jmul a a0 a3) (jmul a a2 a1)
      in (jdiv a a3 det, jdiv a (jneg a1) det, jdiv a (jneg a2) det, jdiv a a0 det))"

text \<open>
  Modelled from the spec: \<^verbatim>\<open>mat2.multiply\<close> of the vector library,
  the matrix product on the arrays of entries.
\<close>

fun mat2_multiply :: "arith \<Rightarrow> mat2 \<Rightarrow> mat2 \<Rightarrow> mat2" where
  "mat2_multiply a (a0, a1, a2, a3) (b0, b1, b2, b3) =
     (jadd a (jmul a a0 b0) (jmul a a2 b1),
      jadd a (jmul a a1 b0) (jmul a a3 b1),
      jadd a (jmul a a0 b2) (jmul a a2 b3),
      jadd a (jmul a a1 b2) (jmul a a3 b3))"

section \<open>centerOfVolume and centerPointCloud\<close>

fun cov_step :: "arith \<Rightarrow> point \<Rightarrow> point \<Rightarrow> point" where
  "cov_step a (covX, covY, covZ) (px, py, pz) = (jadd a covX px, jadd a covY py, jadd a covZ pz)"

definition centerOfVolume :: "arith \<Rightarrow> point list \<Rightarrow> point" where
  "centerOfVolume a points =
     (case foldl (cov_step a) (Num 0, Num 0, Num 0) points of
        (covX, covY, covZ) \<Rightarrow>
          let n = Num (real (length points))
          in (jdiv a covX n, jdiv a covY n, jdiv a covZ n))"

text \<open>
  The array \<^verbatim>\<open>points\<close> holds references to point objects, and the source changes
  those objects in place. The store maps a reference to the current value of its object;
  the same reference may stand at several indices of \<^verbatim>\<open>points\<close>, and each pass of
  the loop reads the object as the passes before it have left it. The model returns the
  store after the loop.
\<close>

type_synonym ref = nat

definition centerPointCloud :: "arith \<Rightarrow> (ref \<Rightarrow> point) \<Rightarrow> ref list \<Rightarrow> ref \<Rightarrow> point" where
  "centerPointCloud a heap points =
     (case centerOfVolume a (map heap points) of
        (cx, cy, cz) \<Rightarrow>
          foldl (\<lambda>h r. case h r of (px, py, pz) \<Rightarrow>
                   h(r := (jsub a px cx, jsub a py cy, jsub a pz cz))) heap points)"

section \<open>unwrapVectorArray and unwrapArray\<close>

fun unwrapVectorArray_loop ::
  "('a \<times> 'a \<times> 'a) list \<Rightarrow> triangle list \<Rightarrow> 'a list \<Rightarrow> js_error + 'a list" where
  "unwrapVectorArray_loop v [] verts = Inr verts"
| "unwrapVectorArray_loop v ((i0, i1, i2) # inds) verts =
     (case element_of (js_index v i0) of
        Inl e \<Rightarrow> Inl e
      | Inr (x0, y0, z0) \<Rightarrow>
     (case element_of (js_index v i1) of
        Inl e \<Rightarrow> Inl e
      | Inr (x1, y1, z1) \<Rightarrow>
     (case element_of (js_index v i2) of
        Inl e \<Rightarrow> Inl e
      | Inr (x2, y2, z2) \<Rightarrow>
          unwrapVectorArray_loop v inds (verts @ [x0, y0, z0, x1, y1, z1, x2, y2, z2]))))"

definition unwrapVectorArray :: "('a \<times> 'a \<times> 'a) list \<Rightarrow> triangle list \<Rightarrow> js_error + 'a list" where
  "unwrapVectorArray v inds = unwrapVectorArray_loop v inds []"

text \<open>
  \<^verbatim>\<open>unwrapArray\<close> reads no component of the values it copies, so nothing in it can
  throw: an index past the end pushes \<^verbatim>\<open>undefined\<close>.
\<close>

fun unwrapArray_loop :: "'a list \<Rightarrow> triangle list \<Rightarrow> 'a option list \<Rightarrow> 'a option list" where
  "unwrapArray_loop v [] values = values"
| "unwrapArray_loop v ((i0, i1, i2) # inds) values =
     unwrapArray_loop v inds (values @ [js_index v i0, js_index v i1, js_index v i2])"

definition unwrapArray :: "'a list \<Rightarrow> triangle list \<Rightarrow> 'a option list" where
  "unwrapArray v inds = unwrapArray_loop v inds []"

section \<open>faceNormals and faceVectors\<close>

text \<open>
  The two edge vectors of a triangle, as both functions compute them: the points are
  read in the order second, first, third corner, and a corner past the end of
  \<^verbatim>\<open>verts\<close> throws.
\<close>

fun face_edges :: "arith \<Rightarrow> point list \<Rightarrow> triangle \<Rightarrow> js_error + point \<times> point" where
  "face_edges a verts (i0, i1, i2) =
     (case element_of (js_index verts i1) of
        Inl e \<Rightarrow> Inl e
      | Inr (x1, y1, z1) \<Rightarrow>
     (case element_of (js_index verts i0) of
        Inl e \<Rightarrow> Inl e
      | Inr (x0, y0, z0) \<Rightarrow>
     (case element_of (js_index verts i2) of
        Inl e \<Rightarrow> Inl e
      | Inr (x2, y2, z2) \<Rightarrow>
          Inr (vec3_fromValues (jsub a x1 x0) (jsub a y1 y0) (jsub a z1 z0),
               vec3_fromValues (jsub a x2 x0) (jsub a y2 y0) (jsub a z2 z0)))))"

fun faceNormals_loop ::
  "arith \<Rightarrow> point list \<Rightarrow> triangle list \<Rightarrow> point option list \<Rightarrow> js_error + point option list" where
  "faceNormals_loop a verts [] norms = Inr norms"
| "faceNormals_loop a verts ((i0, i1, i2) # ind) norms =
     (case face_edges a verts (i0, i1, i2) of
        Inl e \<Rightarrow> Inl e
      | Inr (u, v) \<Rightarrow>
          let n = vec3_normalize a (vec3_cross a u v)
          in faceNormals_loop a verts ind (js_store (js_store (js_store norms i0 n) i1 n) i2 n))"

definition faceNormals :: "arith \<Rightarrow> point list \<Rightarrow> triangle list \<Rightarrow> js_error + point option list" where
  "faceNormals a verts ind = faceNormals_loop a verts ind (replicate (length verts) None)"

fun faceVectors_loop ::
  "arith \<Rightarrow> point list \<Rightarrow> triangle list \<Rightarrow> point option list \<Rightarrow> js_error + point option list" where
  "faceVectors_loop a verts [] norms = Inr norms"
| "faceVectors_loop a verts ((i0, i1, i2) # ind) norms =
     (case face_edges a verts (i0, i1, i2) of
        Inl e \<Rightarrow> Inl e
      | Inr (u, v) \<Rightarrow>
          let n = vec3_cross a u v
          in faceVectors_loop a verts ind (js_store (js_store (js_store norms i0 n) i1 n) i2 n))"

definition faceVectors :: "arith \<Rightarrow> point list \<Rightarrow> triangle list \<Rightarrow> js_error + point option list" where
  "faceVectors a verts ind = faceVectors_loop a verts ind (replicate (length verts) None)"

section \<open>vertexNormals\<close>

text \<open>\<^verbatim>\<open>adjacency[i].push(p, q)\<close>: a call on \<^verbatim>\<open>undefined\<close> when \<open>i\<close> is past the end.\<close>

definition adjacency_push :: "nat list list \<Rightarrow> nat \<Rightarrow> nat list \<Rightarrow> js_error + nat list list" where
  "adjacency_push adjacency i ks =
     (if i < length adjacency then Inr (adjacency[i := adjacency ! i @ ks]) else Inl TypeError)"

fun adjacency_loop :: "triangle list \<Rightarrow> nat list list \<Rightarrow> js_error + nat list list" where
  "adjacency_loop [] adjacency = Inr adjacency"
| "adjacency_loop ((i0, i1, i2) # ind) adjacency =
     (case adjacency_push adjacency i0 [i1, i2] of
        Inl e \<Rightarrow> Inl e
      | Inr adjacency1 \<Rightarrow>
     (case adjacency_push adjacency1 i1 [i0, i2] of
        Inl e \<Rightarrow> Inl e
      | Inr adjacency2 \<Rightarrow>
     (case adjacency_push adjacency2 i2 [i0, i1] of
        Inl e \<Rightarrow> Inl e
      | Inr adjacency3 \<Rightarrow> adjacency_loop ind adjacency3)))"

text \<open>The inner loop over \<open>j\<close>: the sum of \<^verbatim>\<open>faceVecs[adjacency[i][j]]\<close>.\<close>

fun sum_faceVecs :: "arith \<Rightarrow> point option list \<Rightarrow> nat list \<Rightarrow> point \<Rightarrow> js_error + point" where
  "sum_faceVecs a faceVecs [] n = Inr n"
| "sum_faceVecs a faceVecs (k # ks) n =
     (case element_of (js_index_holes faceVecs k) of
        Inl e \<Rightarrow> Inl e
      | Inr (fx, fy, fz) \<Rightarrow> sum_faceVecs a faceVecs ks (vec3_add a n (vec3_fromValues fx fy fz)))"

text \<open>The outer loop, over the indices \<open>0, \<dots>, verts.length - 1\<close>.\<close>

fun vertexNormals_loop ::
  "arith \<Rightarrow> nat list list \<Rightarrow> point option list \<Rightarrow> nat list \<Rightarrow> point option list \<Rightarrow>
   js_error + point option list" where
  "vertexNormals_loop a adjacency faceVecs [] norms = Inr norms"
| "vertexNormals_loop a adjacency faceVecs (i # is) norms =
     (case sum_faceVecs a faceVecs (adjacency ! i) (vec3_fromValues (Num 0) (Num 0) (Num 0)) of
        Inl e \<Rightarrow> Inl e
      | Inr n \<Rightarrow>
          vertexNormals_loop a adjacency faceVecs is (js_store norms i (vec3_normalize a n)))"

definition vertexNormals :: "arith \<Rightarrow> point list \<Rightarrow> triangle list \<Rightarrow> js_error + point option list" where
  "vertexNormals a verts ind =
     (case adjacency_loop ind (replicate (length verts) []) of
        Inl e \<Rightarrow> Inl e
      | Inr adjacency \<Rightarrow>
     (case faceVectors a verts ind of
        Inl e \<Rightarrow> Inl e
      | Inr faceVecs \<Rightarrow>
          vertexNormals_loop a adjacency faceVecs [0..<length verts]
            (replicate (length verts) None)))"

section \<open>surfaceVariation\<close>

definition clampTrace :: "jsnum \<Rightarrow> jsnum" where
  "clampTrace trace = (if jgt trace (Num 1000) then Num 1000 else trace)"

text \<open>The clamped trace of the triangle whose nine coordinates start at index \<open>i\<close>.\<close>

definition triangle_trace :: "arith \<Rightarrow> jsnum list \<Rightarrow> jsnum list \<Rightarrow> nat \<Rightarrow> jsnum" where
  "triangle_trace a verts vNorms i =
     (let u = vec3_fromValues (jsub a (num_at verts (i + 3)) (num_at verts i))
                (jsub a (num_at verts (i + 4)) (num_at verts (i + 1)))
                (jsub a (num_at verts (i + 5)) (num_at verts (i + 2)));
          v = vec3_fromValues (jsub a (num_at verts (i + 6)) (num_at verts i))
                (jsub a (num_at verts (i + 7)) (num_at verts (i + 1)))
                (jsub a (num_at verts (i + 8)) (num_at verts (i + 2)));
          G = (vec3_dot a u u, vec3_dot a u v, vec3_dot a u v, vec3_dot a v v);
          nu = vec3_fromValues (jsub a (num_at vNorms (i + 3)) (num_at vNorms i))
                 (jsub a (num_at vNorms (i + 4)) (num_at vNorms (i + 1)))
                 (jsub a (num_at vNorms (i + 5)) (num_at vNorms (i + 2)));
          nv = vec3_fromValues (jsub a (num_at vNorms (i + 6)) (num_at vNorms i))
                 (jsub a (num_at vNorms (i + 7)) (num_at vNorms (i + 1)))
                 (jsub a (num_at vNorms (i + 8)) (num_at vNorms (i + 2)));
          H = (vec3_dot a nu nu, vec3_dot a nu nv, vec3_dot a nu nv, vec3_dot a nv nv)
      in case mat2_multiply a (mat2_invert a G) H of
           (res0, res1, res2, res3) \<Rightarrow> clampTrace (jadd a res0 res3))"

text \<open>
  The first loop: \<open>i\<close> advances by nine; the state is \<^verbatim>\<open>largest\<close>, \<^verbatim>\<open>smallest\<close>
  and \<^verbatim>\<open>scalars\<close>.
\<close>

function surfaceVariation_loop ::
  "arith \<Rightarrow> jsnum list \<Rightarrow> jsnum list \<Rightarrow> nat \<Rightarrow> jsnum \<Rightarrow> jsnum \<Rightarrow> jsnum list \<Rightarrow> jsnum \<times> jsnum list" where
  "surfaceVariation_loop a verts vNorms i largest smallest scalars =
     (if i < length verts then
        let trace = triangle_trace a verts vNorms i;
            scalars' = scalars @ [trace, trace, trace]
        in if jgt trace largest then
             surfaceVariation_loop a verts vNorms (i + 9) trace smallest scalars'
           else if jlt trace smallest then
             surfaceVariation_loop a verts vNorms (i + 9) largest trace scalars'
           else surfaceVariation_loop a verts vNorms (i + 9) largest smallest scalars'
      else (largest, scalars))"
  by pat_completeness auto
termination
  by (relation "measure (\<lambda>(a, verts, vNorms, i, largest, smallest, scalars). length verts - i)") auto

declare surfaceVariation_loop.simps [simp del]

text \<open>The second loop: normalize by \<^verbatim>\<open>largest\<close>, then the contrast curve.\<close>

definition contrast :: "arith \<Rightarrow> jsnum \<Rightarrow> jsnum \<Rightarrow> jsnum" where
  "contrast a largest s =
     jsub a (Num 1)
       (jdiv a (jexp a (jsub a (rnd a (299572315 / 100000000)) (jmul a (Num 15) (jdiv a s largest))))
          (Num 20))"

definition surfaceVariation :: "arith \<Rightarrow> jsnum list \<Rightarrow> jsnum list \<Rightarrow> jsnum list" where
  "surfaceVariation a verts vNorms =
     (case surfaceVariation_loop a verts vNorms 0 NInf PInf [] of
        (largest, scalars) \<Rightarrow> map (contrast a largest) scalars)"

section \<open>surfaceOrientation\<close>

definition angleRangeClamp :: "arith \<Rightarrow> jsnum \<Rightarrow> jsnum" where
  "angleRangeClamp a angle =
     (if jgt angle (jmul a (Math_PI a) (Num 2)) then jsub a angle (jmul a (Math_PI a) (Num 2))
      else if jlt angle (Num 0) then jadd a angle (jmul a (Math_PI a) (Num 2))
      else angle)"

text \<open>The value pushed for the normal whose components start at index \<open>i\<close>.\<close>

definition orientation_region :: "arith \<Rightarrow> jsnum list \<Rightarrow> nat \<Rightarrow> jsnum" where
  "orientation_region a norms i =
     (let n = Num 8;
          or = vec2_normalize a (vec2_fromValues (num_at norms i) (num_at norms (i + 1)));
          theta = angleRangeClamp a (jatan2 a (snd or) (fst or));
          region = jfloor (jdiv a theta (jdiv a (jmul a (Num 2) (Math_PI a)) n))
      in jdiv a region (jsub a n (Num 1)))"

function surfaceOrientation_loop :: "arith \<Rightarrow> jsnum list \<Rightarrow> nat \<Rightarrow> jsnum list \<Rightarrow> jsnum list" where
  "surfaceOrientation_loop a norms i regions =
     (if i < length norms then
        surfaceOrientation_loop a norms (i + 3) (regions @ [orientation_region a norms i])
      else regions)"
  by pat_completeness auto
termination
  by (relation "measure (\<lambda>(a, norms, i, regions). length norms - i)") auto

declare surfaceOrientation_loop.simps [simp del]

definition surfaceOrientation :: "arith \<Rightarrow> jsnum list \<Rightarrow> jsnum list" where
  "surfaceOrientation a norms = surfaceOrientation_loop a norms 0 []"

section \<open>getAabb\<close>

record aabb =
  aabb_min :: point
  aabb_max :: point
  aabb_center :: point
  aabb_length :: jsnum

text \<open>One pass of the loop body: six guarded assignments.\<close>

fun aabb_step ::
  "jsnum \<times> jsnum \<times> jsnum \<times> jsnum \<times> jsnum \<times> jsnum \<Rightarrow> point \<Rightarrow>
   jsnum \<times> jsnum \<times> jsnum \<times> jsnum \<times> jsnum \<times> jsnum" where
  "aabb_step (xmin, xmax, ymin, ymax, zmin, zmax) (px, py, pz) =
     (if jlt px xmin then px else xmin, if jgt px xmax then px else xmax,
      if jlt py ymin then py else ymin, if jgt py ymax then py else ymax,
      if jlt pz zmin then pz else zmin, if jgt pz zmax then pz else zmax)"

definition getAabb :: "arith \<Rightarrow> point list \<Rightarrow> aabb" where
  "getAabb a verts =
     (case foldl aabb_step (PInf, NInf, PInf, NInf, PInf, NInf) verts of
        (xmin, xmax, ymin, ymax, zmin, zmax) \<Rightarrow>
          let sqrDist0 = jmul a (jsub a xmax xmin) (jsub a xmax xmin);
              sqrDist1 = jadd a sqrDist0 (jmul a (jsub a ymax ymin) (jsub a ymax ymin));
              sqrDist2 = jadd a sqrDist1 (jmul a (jsub a zmax zmin) (jsub a zmax zmin))
          in \<lparr>aabb_min = (xmin, ymin, zmin),
              aabb_max = (xmax, ymax, zmax),
              aabb_center = (jadd a xmin (jdiv a xmax (Num 2)),
                             jadd a ymin (jdiv a ymax (Num 2)),
                             jadd a zmin (jdiv a zmax (Num 2))),
              aabb_length = jsqrt a sqrDist2\<rparr>)"

section \<open>Vocabulary of the properties\<close>

text \<open>Every index of every triangle is below \<open>n\<close>.\<close>

definition in_range :: "nat \<Rightarrow> triangle list \<Rightarrow> bool" where
  "in_range n inds = list_all (\<lambda>(i0, i1, i2). i0 < n \<and> i1 < n \<and> i2 < n) inds"

text \<open>The three components of a point, in order.\<close>

definition coords :: "'a \<times> 'a \<times> 'a \<Rightarrow> 'a list" where
  "coords p = (case p of (px, py, pz) \<Rightarrow> [px, py, pz])"

text \<open>\<open>p\<close> is one of the three indices of the triangle.\<close>

definition corner :: "nat \<Rightarrow> triangle \<Rightarrow> bool" where
  "corner p t = (case t of (i0, i1, i2) \<Rightarrow> p = i0 \<or> p = i1 \<or> p = i2)"

text \<open>The triangle processed last, in iteration order, among those with corner \<open>p\<close>.\<close>

definition last_triangle :: "triangle list \<Rightarrow> nat \<Rightarrow> triangle option" where
  "last_triangle ind p =
     (let ts = filter (corner p) ind in if ts = [] then None else Some (last ts))"

text \<open>
  The raw face vector \<open>(P[b] - P[a]) \<times> (P[c] - P[a])\<close> of a triangle \<open>(a, b, c)\<close>, and its
  normal.
\<close>

fun psub :: "arith \<Rightarrow> point \<Rightarrow> point \<Rightarrow> point" where
  "psub a (px, py, pz) (qx, qy, qz) = (jsub a px qx, jsub a py qy, jsub a pz qz)"

definition face_vector :: "arith \<Rightarrow> point list \<Rightarrow> triangle \<Rightarrow> point" where
  "face_vector a P t =
     (case t of (i0, i1, i2) \<Rightarrow> vec3_cross a (psub a (P ! i1) (P ! i0)) (psub a (P ! i2) (P ! i0)))"

definition face_normal :: "arith \<Rightarrow> point list \<Rightarrow> triangle \<Rightarrow> point" where
  "face_normal a P t = vec3_normalize a (face_vector a P t)"

text \<open>Storing one value at the three corners of each triangle, in order.\<close>

fun scatter :: "(triangle \<Rightarrow> 'a) \<Rightarrow> triangle list \<Rightarrow> 'a option list \<Rightarrow> 'a option list" where
  "scatter f [] norms = norms"
| "scatter f ((i0, i1, i2) # ind) norms =
     scatter f ind (norms[i0 := Some (f (i0, i1, i2)), i1 := Some (f (i0, i1, i2)),
       i2 := Some (f (i0, i1, i2))])"

text \<open>
  The adjacency entries of vertex \<open>v\<close>: for each triangle, in order, the two other corners,
  once for each corner slot that holds \<open>v\<close>.
\<close>

definition adjacency_of :: "triangle list \<Rightarrow> nat \<Rightarrow> nat list" where
  "adjacency_of ind v =
     concat (map (\<lambda>(i0, i1, i2).
       (if v = i0 then [i1, i2] else []) @ (if v = i1 then [i0, i2] else []) @
       (if v = i2 then [i0, i1] else [])) ind)"

text \<open>A triangle with three different corners.\<close>

definition proper :: "triangle \<Rightarrow> bool" where
  "proper t = (case t of (i0, i1, i2) \<Rightarrow> i0 \<noteq> i1 \<and> i1 \<noteq> i2 \<and> i0 \<noteq> i2)"

text \<open>The sum of the face-vector entries at the indices \<open>ks\<close>, added in order to zero.\<close>

definition vertex_sum :: "arith \<Rightarrow> point option list \<Rightarrow> nat list \<Rightarrow> point" where
  "vertex_sum a faceVecs ks =
     foldl (vec3_add a) (Num 0, Num 0, Num 0) (map (\<lambda>k. the (faceVecs ! k)) ks)"

text \<open>A point with finite coordinates.\<close>

definition fin :: "real \<times> real \<times> real \<Rightarrow> point" where
  "fin p = (case p of (px, py, pz) \<Rightarrow> (Num px, Num py, Num pz))"
















text \<open>
  The sum the spec describes for a vertex: the raw face vectors of the triangles that
  have the vertex as a corner, each counted twice (once for each of the two other
  corners), added in order to zero.
\<close>

definition incident_sum :: "arith \<Rightarrow> point list \<Rightarrow> triangle list \<Rightarrow> nat \<Rightarrow> point" where
  "incident_sum a P ind v =
     foldl (vec3_add a) (Num 0, Num 0, Num 0)
       (concat (map (\<lambda>t. [face_vector a P t, face_vector a P t]) (filter (corner v) ind)))"






text \<open>The arithmetic mean.\<close>

definition mean :: "real list \<Rightarrow> real" where
  "mean xs = sum_list xs / real (length xs)"

text \<open>
  The standard model of a rounded arithmetic: on every real of magnitude at most \<open>R\<close>
  the rounding returns a finite number, with relative error at most \<open>u\<close> and absolute
  error at most \<open>\<eta>\<close>. The finite value of a number (zero for the others).
\<close>

definition rounds :: "arith \<Rightarrow> real \<Rightarrow> real \<Rightarrow> real \<Rightarrow> bool" where
  "rounds a u \<eta> R \<longleftrightarrow>
     (\<forall>x. \<bar>x\<bar> \<le> R \<longrightarrow> (\<exists>y. rnd a x = Num y \<and> \<bar>y - x\<bar> \<le> u * \<bar>x\<bar> + \<eta>))"

definition rval :: "jsnum \<Rightarrow> real" where
  "rval v = (case v of Num y \<Rightarrow> y | _ \<Rightarrow> 0)"

section \<open>Properties\<close>

subsection \<open>unwrapArray and unwrapVectorArray\<close>

lemma in_range_Cons [simp]:
  "in_range n ((i0, i1, i2) # inds) \<longleftrightarrow> i0 < n \<and> i1 < n \<and> i2 < n \<and> in_range n inds"
  by (simp add: in_range_def)

lemma in_range_Nil [simp]: "in_range n []"
  by (simp add: in_range_def)

lemma unwrapArray_loop_eq:
  "unwrapArray_loop v inds values =
     values @ concat (map (\<lambda>(i0, i1, i2). [js_index v i0, js_index v i1, js_index v i2]) inds)"
  by (induction v inds "values" rule: unwrapArray_loop.induct) simp_all

lemma unwrapVectorArray_loop_eq:
  "in_range (length v) inds \<Longrightarrow>
   unwrapVectorArray_loop v inds verts =
     Inr (verts @ concat (map (\<lambda>(i0, i1, i2). coords (v ! i0) @ coords (v ! i1) @ coords (v ! i2)) inds))"
proof (induction v inds verts rule: unwrapVectorArray_loop.induct)
  case (1 v verts)
  then show ?case by simp
next
  case (2 v i0 i1 i2 inds verts)
  then show ?case
    by (simp add: js_index_def element_of_def coords_def split: prod.splits)
qed

text \<open>
  C7. With every index in range, \<^verbatim>\<open>unwrapArray\<close> and \<^verbatim>\<open>unwrapVectorArray\<close> append,
  for each triangle in order, the array's value at each of the triangle's three indices
  (for points: the three coordinates of each). On the single triangle \<open>(0,1,2)\<close> over
  three points, \<^verbatim>\<open>unwrapVectorArray\<close> returns the nine coordinates of the three points in
  index order.
\<close>

theorem unwrap_appends_values:
  fixes v :: "'a list" and pts :: "('b \<times> 'b \<times> 'b) list" and x0 :: 'b
  assumes "in_range (length v) inds" and "in_range (length pts) inds"
  shows "unwrapArray v inds =
           concat (map (\<lambda>(i0, i1, i2). [Some (v ! i0), Some (v ! i1), Some (v ! i2)]) inds)
       \<and> unwrapVectorArray pts inds =
           Inr (concat (map (\<lambda>(i0, i1, i2). coords (pts ! i0) @ coords (pts ! i1) @ coords (pts ! i2)) inds))
       \<and> unwrapVectorArray [(x0, y0, z0), (x1, y1, z1), (x2, y2, z2)] [(0, 1, 2)] =
           Inr [x0, y0, z0, x1, y1, z1, x2, y2, z2]"
proof -
  have eq: "map (\<lambda>(i0, i1, i2). [js_index v i0, js_index v i1, js_index v i2]) inds =
        map (\<lambda>(i0, i1, i2). [Some (v ! i0), Some (v ! i1), Some (v ! i2)]) inds"
    using assms(1) by (intro map_cong refl) (auto simp: in_range_def list_all_iff js_index_def)
  have "unwrapArray v inds =
           concat (map (\<lambda>(i0, i1, i2). [Some (v ! i0), Some (v ! i1), Some (v ! i2)]) inds)"
    by (simp only: unwrapArray_def unwrapArray_loop_eq eq append_Nil)
  moreover have "unwrapVectorArray pts inds =
           Inr (concat (map (\<lambda>(i0, i1, i2). coords (pts ! i0) @ coords (pts ! i1) @ coords (pts ! i2)) inds))"
    using assms(2) by (simp add: unwrapVectorArray_def unwrapVectorArray_loop_eq)
  moreover have "unwrapVectorArray [(x0, y0, z0), (x1, y1, z1), (x2, y2, z2)] [(0, 1, 2)] =
           Inr [x0, y0, z0, x1, y1, z1, x2, y2, z2]"
    by (simp add: unwrapVectorArray_def js_index_def element_of_def)
  ultimately show ?thesis by simp
qed

theorem unwrap_appends_values_witness:
  "in_range 4 [(0, 1, 2), (2, 1, 3)]
   \<and> unwrapArray [10, 20, 30, 40 :: int] [(0, 1, 2), (2, 1, 3)] =
       [Some 10, Some 20, Some 30, Some 30, Some 20, Some 40]
   \<and> unwrapVectorArray [(1, 2, 3), (4, 5, 6), (7, 8, 9), (10, 11, 12 :: int)] [(0, 1, 2), (2, 1, 3)] =
       Inr [1, 2, 3, 4, 5, 6, 7, 8, 9, 7, 8, 9, 4, 5, 6, 10, 11, 12]
   \<and> unwrapVectorArray [(1, 2, 3), (4, 5, 6), (7, 8, 9 :: int)] [(0, 1, 2)] =
       Inr [1, 2, 3, 4, 5, 6, 7, 8, 9]"
  using unwrap_appends_values [of "[10, 20, 30, 40 :: int]" "[(0, 1, 2), (2, 1, 3)]"
      "[(1, 2, 3), (4, 5, 6), (7, 8, 9), (10, 11, 12 :: int)]" 1 2 3 4 5 6 7 8 9]
  by (simp add: coords_def)

subsection \<open>faceNormals\<close>

lemma js_store_in_range [simp]: "i < length xs \<Longrightarrow> js_store xs i v = xs[i := Some v]"
  by (simp add: js_store_def)

lemma face_edges_in_range:
  "i0 < length verts \<Longrightarrow> i1 < length verts \<Longrightarrow> i2 < length verts \<Longrightarrow>
   face_edges a verts (i0, i1, i2) =
     Inr (psub a (verts ! i1) (verts ! i0), psub a (verts ! i2) (verts ! i0))"
  by (simp add: js_index_def element_of_def vec3_fromValues_def split: prod.splits)

lemma face_edges_out_of_range:
  "\<not> (i0 < length verts \<and> i1 < length verts \<and> i2 < length verts) \<Longrightarrow>
   face_edges a verts (i0, i1, i2) = Inl TypeError"
  by (auto simp: js_index_def element_of_def split: prod.splits)

declare face_edges.simps [simp del]

lemma length_scatter [simp]: "length (scatter f ind norms) = length norms"
  by (induction f ind norms rule: scatter.induct) simp_all

lemma faceNormals_loop_scatter:
  "in_range (length verts) ind \<Longrightarrow> length norms = length verts \<Longrightarrow>
   faceNormals_loop a verts ind norms = Inr (scatter (face_normal a verts) ind norms)"
proof (induction a verts ind norms rule: faceNormals_loop.induct)
  case (1 a verts norms)
  then show ?case by simp
next
  case (2 a verts i0 i1 i2 ind norms)
  from "2.prems" have i: "i0 < length verts" "i1 < length verts" "i2 < length verts"
    and r: "in_range (length verts) ind"
    by simp_all
  note fe = face_edges_in_range [OF i, of a]
  from "2.IH" [OF fe refl refl] r "2.prems"(2) i show ?case
    by (simp add: fe face_normal_def face_vector_def Let_def)
qed

lemma faceVectors_loop_scatter:
  "in_range (length verts) ind \<Longrightarrow> length norms = length verts \<Longrightarrow>
   faceVectors_loop a verts ind norms = Inr (scatter (face_vector a verts) ind norms)"
proof (induction a verts ind norms rule: faceVectors_loop.induct)
  case (1 a verts norms)
  then show ?case by simp
next
  case (2 a verts i0 i1 i2 ind norms)
  from "2.prems" have i: "i0 < length verts" "i1 < length verts" "i2 < length verts"
    and r: "in_range (length verts) ind"
    by simp_all
  note fe = face_edges_in_range [OF i, of a]
  from "2.IH" [OF fe refl refl] r "2.prems"(2) i show ?case
    by (simp add: fe face_vector_def Let_def)
qed

lemma last_triangle_Nil [simp]: "last_triangle [] p = None"
  by (simp add: last_triangle_def)

lemma last_triangle_Cons:
  "last_triangle (t # ind) p =
     (case last_triangle ind p of
        Some t' \<Rightarrow> Some t'
      | None \<Rightarrow> if corner p t then Some t else None)"
  by (simp add: last_triangle_def Let_def)

lemma scatter_nth:
  "in_range (length norms) ind \<Longrightarrow> p < length norms \<Longrightarrow>
   scatter f ind norms ! p =
     (case last_triangle ind p of None \<Rightarrow> norms ! p | Some t \<Rightarrow> Some (f t))"
proof (induction f ind norms rule: scatter.induct)
  case (1 f norms)
  then show ?case by simp
next
  case (2 f i0 i1 i2 ind norms)
  then show ?case
    by (auto simp: last_triangle_Cons corner_def nth_list_update split: option.splits)
qed

lemma scatter_replicate_nth:
  "in_range n ind \<Longrightarrow> p < n \<Longrightarrow>
   scatter f ind (replicate n None) ! p = map_option f (last_triangle ind p)"
  by (simp add: scatter_nth split: option.splits)

lemma last_triangle_snoc:
  "corner p t \<Longrightarrow> last_triangle (ind @ [t]) p = Some t"
  by (simp add: last_triangle_def)

lemma in_range_append [simp]:
  "in_range n (xs @ ys) \<longleftrightarrow> in_range n xs \<and> in_range n ys"
  by (simp add: in_range_def)

lemma face_normal_example_1:
  "face_normal exact [(Num 0, Num 0, Num 0), (Num 1, Num 0, Num 0), (Num 0, Num 1, Num 0),
      (Num 0, Num 0, Num 1)] (0, Suc 0, 2) = (Num 0, Num 0, Num 1)"
  by (simp add: face_normal_def face_vector_def jsub_def exact_def)

lemma face_normal_example_2:
  "face_normal exact [(Num 0, Num 0, Num 0), (Num 1, Num 0, Num 0), (Num 0, Num 1, Num 0),
      (Num 0, Num 0, Num 1)] (0, 2, 3) = (Num 1, Num 0, Num 0)"
  by (simp add: face_normal_def face_vector_def jsub_def exact_def eval_nat_numeral)

lemma last_triangle_None_iff:
  "last_triangle ind p = None \<longleftrightarrow> (\<forall>t\<in>set ind. \<not> corner p t)"
  by (auto simp: last_triangle_def Let_def filter_empty_conv)

text \<open>
  C4. With every index in range, \<^verbatim>\<open>faceNormals\<close> writes, for each triangle \<open>(a,b,c)\<close>, the
  normal \<open>normalize((P[b] - P[a]) \<times> (P[c] - P[a]))\<close> to the slots \<open>a\<close>, \<open>b\<close> and \<open>c\<close>:
  right after the triangle has been processed the three slots hold its normal. In the
  array returned, the slot of every vertex holds the normal of the triangle processed
  last among those that share the vertex.
\<close>

theorem faceNormals_last_triangle:
  assumes "in_range (length verts) ind"
  shows "(\<forall>ind1 i0 i1 i2 ind2. ind = ind1 @ (i0, i1, i2) # ind2 \<longrightarrow>
            (\<exists>ns. faceNormals a verts (ind1 @ [(i0, i1, i2)]) = Inr ns
               \<and> ns ! i0 = Some (face_normal a verts (i0, i1, i2))
               \<and> ns ! i1 = Some (face_normal a verts (i0, i1, i2))
               \<and> ns ! i2 = Some (face_normal a verts (i0, i1, i2))))
       \<and> (\<exists>norms. faceNormals a verts ind = Inr norms
             \<and> (\<forall>p<length verts. norms ! p = map_option (face_normal a verts) (last_triangle ind p)))"
proof (intro conjI allI impI)
  fix ind1 i0 i1 i2 ind2
  assume eq: "ind = ind1 @ (i0, i1, i2) # ind2"
  let ?t = "(i0, i1, i2)"
  from assms eq have r: "in_range (length verts) (ind1 @ [?t])"
    and i: "i0 < length verts" "i1 < length verts" "i2 < length verts"
    by simp_all
  have run: "faceNormals a verts (ind1 @ [?t]) =
      Inr (scatter (face_normal a verts) (ind1 @ [?t]) (replicate (length verts) None))"
    using r by (simp add: faceNormals_def faceNormals_loop_scatter)
  have "scatter (face_normal a verts) (ind1 @ [?t]) (replicate (length verts) None) ! p =
      Some (face_normal a verts ?t)" if "p < length verts" "corner p ?t" for p
    using that r by (simp add: scatter_replicate_nth last_triangle_snoc)
  with i run show "\<exists>ns. faceNormals a verts (ind1 @ [?t]) = Inr ns
               \<and> ns ! i0 = Some (face_normal a verts ?t)
               \<and> ns ! i1 = Some (face_normal a verts ?t)
               \<and> ns ! i2 = Some (face_normal a verts ?t)"
    by (simp add: corner_def)
next
  show "\<exists>norms. faceNormals a verts ind = Inr norms
             \<and> (\<forall>p<length verts. norms ! p = map_option (face_normal a verts) (last_triangle ind p))"
    using assms by (simp add: faceNormals_def faceNormals_loop_scatter scatter_replicate_nth)
qed

theorem faceNormals_last_triangle_witness:
  "in_range 4 [(0, 1, 2), (0, 2, 3)]
   \<and> (\<exists>ns. faceNormals exact [(Num 0, Num 0, Num 0), (Num 1, Num 0, Num 0), (Num 0, Num 1, Num 0),
          (Num 0, Num 0, Num 1)] [(0, 1, 2)] = Inr ns
        \<and> ns ! 0 = Some (Num 0, Num 0, Num 1)
        \<and> ns ! 1 = Some (Num 0, Num 0, Num 1)
        \<and> ns ! 2 = Some (Num 0, Num 0, Num 1))
   \<and> (\<exists>norms. faceNormals exact [(Num 0, Num 0, Num 0), (Num 1, Num 0, Num 0), (Num 0, Num 1, Num 0),
          (Num 0, Num 0, Num 1)] [(0, 1, 2), (0, 2, 3)] = Inr norms
        \<and> norms ! 0 = Some (Num 1, Num 0, Num 0)
        \<and> norms ! 1 = Some (Num 0, Num 0, Num 1)
        \<and> norms ! 2 = Some (Num 1, Num 0, Num 0)
        \<and> norms ! 3 = Some (Num 1, Num 0, Num 0))"
proof -
  let ?P = "[(Num 0, Num 0, Num 0), (Num 1, Num 0, Num 0), (Num 0, Num 1, Num 0),
      (Num 0, Num 0, Num 1)]"
  let ?ind = "[(0, 1, 2), (0, 2, 3)] :: triangle list"
  have r: "in_range (length ?P) ?ind" by simp
  note th = faceNormals_last_triangle [OF r, of exact]
  from th [THEN conjunct1, rule_format, of "[]" 0 1 2 "[(0, 2, 3)]"]
  have A: "\<exists>ns. faceNormals exact ?P [(0, 1, 2)] = Inr ns
        \<and> ns ! 0 = Some (Num 0, Num 0, Num 1)
        \<and> ns ! 1 = Some (Num 0, Num 0, Num 1)
        \<and> ns ! 2 = Some (Num 0, Num 0, Num 1)"
    by (simp add: face_normal_example_1)
  from th [THEN conjunct2] obtain norms where
    n: "faceNormals exact ?P ?ind = Inr norms"
    and v: "\<forall>p<length ?P. norms ! p = map_option (face_normal exact ?P) (last_triangle ?ind p)"
    by blast
  have "norms ! 0 = Some (Num 1, Num 0, Num 0)" "norms ! 1 = Some (Num 0, Num 0, Num 1)"
    "norms ! 2 = Some (Num 1, Num 0, Num 0)" "norms ! 3 = Some (Num 1, Num 0, Num 0)"
    using v [rule_format, of 0] v [rule_format, of 1] v [rule_format, of 2] v [rule_format, of 3]
    by (simp_all add: last_triangle_def corner_def face_normal_example_1 face_normal_example_2)
  with n A r show ?thesis by simp
qed

text \<open>
  C10. With every index in range, the array \<^verbatim>\<open>faceNormals\<close> returns has the length of
  the point array, and an entry of it is undefined exactly when its index is a corner of
  no triangle.
\<close>

theorem faceNormals_unreferenced_undefined:
  assumes "in_range (length verts) ind"
  shows "\<exists>norms. faceNormals a verts ind = Inr norms \<and> length norms = length verts
           \<and> (\<forall>p<length verts. (norms ! p = None) = (\<forall>t\<in>set ind. \<not> corner p t))"
  using assms
  by (simp add: faceNormals_def faceNormals_loop_scatter scatter_replicate_nth
      last_triangle_None_iff)

theorem faceNormals_unreferenced_undefined_witness:
  "in_range 4 [(0, 1, 2)]
   \<and> (\<exists>norms. faceNormals exact [(Num 0, Num 0, Num 0), (Num 1, Num 0, Num 0), (Num 0, Num 1, Num 0),
          (Num 0, Num 0, Num 1)] [(0, 1, 2)] = Inr norms
        \<and> length norms = 4 \<and> norms ! 3 = None \<and> norms ! 0 \<noteq> None \<and> norms ! 1 \<noteq> None
        \<and> norms ! 2 \<noteq> None)"
proof -
  let ?P = "[(Num 0, Num 0, Num 0), (Num 1, Num 0, Num 0), (Num 0, Num 1, Num 0),
      (Num 0, Num 0, Num 1)]"
  let ?ind = "[(0, 1, 2)] :: triangle list"
  have r: "in_range (length ?P) ?ind" by simp
  from faceNormals_unreferenced_undefined [OF r, of exact] obtain norms where
    n: "faceNormals exact ?P ?ind = Inr norms" and l: "length norms = length ?P"
    and v: "\<forall>p<length ?P. (norms ! p = None) = (\<forall>t\<in>set ?ind. \<not> corner p t)"
    by blast
  have "norms ! 3 = None" "norms ! 0 \<noteq> None" "norms ! 1 \<noteq> None" "norms ! 2 \<noteq> None"
    using v [rule_format, of 0] v [rule_format, of 1] v [rule_format, of 2] v [rule_format, of 3]
    by (simp_all add: corner_def)
  with n l r show ?thesis by simp
qed

subsection \<open>Indices out of range\<close>

lemma unwrapVectorArray_loop_out_of_range:
  "\<not> in_range (length v) inds \<Longrightarrow> unwrapVectorArray_loop v inds verts = Inl TypeError"
proof (induction v inds verts rule: unwrapVectorArray_loop.induct)
  case (1 v verts)
  then show ?case by simp
next
  case (2 v i0 i1 i2 inds verts)
  show ?case
  proof (cases "i0 < length v \<and> i1 < length v \<and> i2 < length v")
    case True
    with "2.prems" have "\<not> in_range (length v) inds" by simp
    with True "2.IH" show ?thesis
      by (simp add: js_index_def element_of_def split: prod.splits)
  next
    case False
    then show ?thesis
      by (auto simp: js_index_def element_of_def split: prod.splits)
  qed
qed

lemma faceNormals_loop_out_of_range:
  "\<not> in_range (length verts) ind \<Longrightarrow> faceNormals_loop a verts ind norms = Inl TypeError"
proof (induction a verts ind norms rule: faceNormals_loop.induct)
  case (1 a verts norms)
  then show ?case by simp
next
  case (2 a verts i0 i1 i2 ind norms)
  show ?case
  proof (cases "i0 < length verts \<and> i1 < length verts \<and> i2 < length verts")
    case True
    then have i: "i0 < length verts" "i1 < length verts" "i2 < length verts" by simp_all
    note fe = face_edges_in_range [OF i, of a]
    from True "2.prems" have "\<not> in_range (length verts) ind" by simp
    with "2.IH" [OF fe refl refl] show ?thesis
      by (simp add: fe Let_def)
  next
    case False
    then show ?thesis
      by (simp add: face_edges_out_of_range)
  qed
qed

lemma length_adjacency_push:
  "adjacency_push adjacency i ks = Inr adjacency' \<Longrightarrow> length adjacency' = length adjacency"
  by (auto simp: adjacency_push_def split: if_splits)

lemma adjacency_loop_out_of_range:
  "\<not> in_range (length adjacency) ind \<Longrightarrow> adjacency_loop ind adjacency = Inl TypeError"
proof (induction ind adjacency rule: adjacency_loop.induct)
  case (1 adjacency)
  then show ?case by simp
next
  case (2 i0 i1 i2 ind adjacency)
  show ?case
  proof (cases "i0 < length adjacency \<and> i1 < length adjacency \<and> i2 < length adjacency")
    case True
    with "2.prems" have "\<not> in_range (length adjacency) ind" by simp
    with True "2.IH" show ?thesis
      by (simp add: adjacency_push_def)
  next
    case False
    then show ?thesis
      by (auto simp: adjacency_push_def)
  qed
qed

lemma not_in_range_undefined:
  "\<not> in_range (length v) inds \<Longrightarrow>
   None \<in> set (concat (map (\<lambda>(i0, i1, i2). [js_index v i0, js_index v i1, js_index v i2]) inds))"
proof (induction inds)
  case Nil
  then show ?case by simp
next
  case (Cons t inds)
  obtain i0 i1 i2 where t: "t = (i0, i1, i2)" by (cases t) auto
  show ?case
  proof (cases "i0 < length v \<and> i1 < length v \<and> i2 < length v")
    case True
    with Cons.prems t have "\<not> in_range (length v) inds" by simp
    from Cons.IH [OF this] show ?thesis by simp
  next
    case False
    then have "None \<in> set [js_index v i0, js_index v i1, js_index v i2]"
      by (auto simp: js_index_def)
    then show ?thesis by (auto simp: t)
  qed
qed

text \<open>
  C9, as stated, fails: no function raises an \<^verbatim>\<open>IndexOutOfRange\<close> error. With a
  triangle that names the index \<open>3\<close> over three values, \<^verbatim>\<open>unwrapArray\<close> returns
  normally, with \<^verbatim>\<open>undefined\<close> in the slot, and \<^verbatim>\<open>unwrapVectorArray\<close> stops on the
  runtime's \<^verbatim>\<open>TypeError\<close>.
\<close>

theorem out_of_range_no_error:
  "unwrapArray [10, 20, 30 :: int] [(0, 1, 3)] = [Some 10, Some 20, None]
   \<and> unwrapVectorArray [(1, 2, 3), (4, 5, 6), (7, 8, 9 :: int)] [(0, 1, 3)] = Inl TypeError"
  by (simp add: unwrapArray_def unwrapVectorArray_def js_index_def element_of_def)

text \<open>
  C9, amended. If a triangle has an index that is not below the length of the point
  array, \<^verbatim>\<open>unwrapVectorArray\<close>, \<^verbatim>\<open>faceNormals\<close> and \<^verbatim>\<open>vertexNormals\<close> stop on the
  runtime's \<^verbatim>\<open>TypeError\<close> (a component read, or a method call, on \<^verbatim>\<open>undefined\<close>);
  \<^verbatim>\<open>unwrapArray\<close> raises nothing and returns, for each triangle in order, the values at
  its three indices, with \<^verbatim>\<open>undefined\<close> in the slot of every index that is not below
  the length of the array: three values per triangle, at least one of them
  \<^verbatim>\<open>undefined\<close>.
\<close>

theorem out_of_range_behaviour:
  assumes "\<not> in_range (length verts) ind" and "length v = length verts"
  shows "unwrapVectorArray verts ind = Inl TypeError
       \<and> faceNormals a verts ind = Inl TypeError
       \<and> vertexNormals a verts ind = Inl TypeError
       \<and> unwrapArray v ind =
           concat (map (\<lambda>(i0, i1, i2).
             map (\<lambda>i. if i < length v then Some (v ! i) else None) [i0, i1, i2]) ind)
       \<and> length (unwrapArray v ind) = 3 * length ind
       \<and> None \<in> set (unwrapArray v ind)"
proof -
  have "map (\<lambda>(i0, i1, i2). [js_index v i0, js_index v i1, js_index v i2]) ind =
      map (\<lambda>(i0, i1, i2). map (\<lambda>i. if i < length v then Some (v ! i) else None) [i0, i1, i2]) ind"
    by (intro map_cong refl) (auto simp: js_index_def)
  then have "unwrapArray v ind =
           concat (map (\<lambda>(i0, i1, i2).
             map (\<lambda>i. if i < length v then Some (v ! i) else None) [i0, i1, i2]) ind)"
    by (simp only: unwrapArray_def unwrapArray_loop_eq append_Nil)
  moreover have "length (unwrapArray v ind) = 3 * length ind"
    by (induction ind) (auto simp: unwrapArray_def unwrapArray_loop_eq)
  moreover have "None \<in> set (unwrapArray v ind)"
  proof -
    from assms have "\<not> in_range (length v) ind" by simp
    from not_in_range_undefined [OF this] show ?thesis
      by (simp only: unwrapArray_def unwrapArray_loop_eq append_Nil)
  qed
  moreover have "unwrapVectorArray verts ind = Inl TypeError"
    "faceNormals a verts ind = Inl TypeError" "vertexNormals a verts ind = Inl TypeError"
    using assms(1)
    by (simp_all add: unwrapVectorArray_def unwrapVectorArray_loop_out_of_range faceNormals_def
        faceNormals_loop_out_of_range vertexNormals_def adjacency_loop_out_of_range)
  ultimately show ?thesis by (intro conjI) assumption+
qed

theorem out_of_range_behaviour_witness:
  "\<not> in_range 3 [(0, 1, 2), (0, 1, 3)]
   \<and> unwrapVectorArray [(Num 0, Num 0, Num 0), (Num 1, Num 0, Num 0), (Num 0, Num 1, Num 0)]
       [(0, 1, 2), (0, 1, 3)] = Inl TypeError
   \<and> faceNormals exact [(Num 0, Num 0, Num 0), (Num 1, Num 0, Num 0), (Num 0, Num 1, Num 0)]
       [(0, 1, 2), (0, 1, 3)] = Inl TypeError
   \<and> vertexNormals exact [(Num 0, Num 0, Num 0), (Num 1, Num 0, Num 0), (Num 0, Num 1, Num 0)]
       [(0, 1, 2), (0, 1, 3)] = Inl TypeError
   \<and> unwrapArray [10, 20, 30 :: int] [(0, 1, 2), (0, 1, 3)] =
       [Some 10, Some 20, Some 30, Some 10, Some 20, None]
   \<and> length (unwrapArray [10, 20, 30 :: int] [(0, 1, 2), (0, 1, 3)]) = 6
   \<and> None \<in> set (unwrapArray [10, 20, 30 :: int] [(0, 1, 2), (0, 1, 3)])"
  using out_of_range_behaviour [of "[(Num 0, Num 0, Num 0), (Num 1, Num 0, Num 0), (Num 0, Num 1, Num 0)]"
      "[(0, 1, 2), (0, 1, 3)]" "[10, 20, 30 :: int]" exact]
  by simp

subsection \<open>vertexNormals\<close>

lemma adjacency_of_Nil [simp]: "adjacency_of [] v = []"
  by (simp add: adjacency_of_def)

lemma adjacency_of_Cons:
  "adjacency_of ((i0, i1, i2) # ind) v =
     (if v = i0 then [i1, i2] else []) @ (if v = i1 then [i0, i2] else []) @
     (if v = i2 then [i0, i1] else []) @ adjacency_of ind v"
  by (simp add: adjacency_of_def)

lemma adjacency_loop_eq:
  "in_range (length adjacency) ind \<Longrightarrow>
   adjacency_loop ind adjacency =
     Inr (map (\<lambda>v. adjacency ! v @ adjacency_of ind v) [0..<length adjacency])"
proof (induction ind adjacency rule: adjacency_loop.induct)
  case (1 adjacency)
  then show ?case by (simp add: map_nth)
next
  case (2 i0 i1 i2 ind adjacency)
  let ?a1 = "adjacency[i0 := adjacency ! i0 @ [i1, i2]]"
  let ?a2 = "?a1[i1 := ?a1 ! i1 @ [i0, i2]]"
  let ?a3 = "?a2[i2 := ?a2 ! i2 @ [i0, i1]]"
  from "2.prems" have i: "i0 < length adjacency" "i1 < length adjacency" "i2 < length adjacency"
    and r: "in_range (length adjacency) ind"
    by simp_all
  have p1: "adjacency_push adjacency i0 [i1, i2] = Inr ?a1"
    using i by (simp add: adjacency_push_def)
  have p2: "adjacency_push ?a1 i1 [i0, i2] = Inr ?a2"
    using i by (simp add: adjacency_push_def)
  have p3: "adjacency_push ?a2 i2 [i0, i1] = Inr ?a3"
    using i by (simp add: adjacency_push_def)
  have "adjacency_loop ind ?a3 = Inr (map (\<lambda>v. ?a3 ! v @ adjacency_of ind v) [0..<length ?a3])"
    using r by (intro "2.IH" [OF p1 p2 p3]) simp
  moreover have "?a3 ! v @ adjacency_of ind v = adjacency ! v @ adjacency_of ((i0, i1, i2) # ind) v"
    if "v < length adjacency" for v
    using that i by (simp add: adjacency_of_Cons nth_list_update)
  ultimately show ?case
    by (simp add: p1 p2 p3 del: adjacency_of_Cons cong: map_cong)
qed

lemma length_adjacency_of:
  "length (adjacency_of ind v) = 2 * count_list (concat (map coords ind)) v"
  by (induction ind) (auto simp: adjacency_of_Cons coords_def)

lemma length_adjacency_of_proper:
  "list_all proper ind \<Longrightarrow> length (adjacency_of ind v) = 2 * length (filter (corner v) ind)"
  by (induction ind) (auto simp: adjacency_of_Cons proper_def corner_def split: if_splits)

lemma adjacency_of_corner:
  "in_range n ind \<Longrightarrow> k \<in> set (adjacency_of ind v) \<Longrightarrow> k < n \<and> (\<exists>t\<in>set ind. corner k t)"
  by (induction ind) (auto simp: adjacency_of_Cons corner_def split: if_splits)

lemma sum_faceVecs_eq:
  "\<forall>k\<in>set ks. k < length faceVecs \<and> faceVecs ! k \<noteq> None \<Longrightarrow>
   sum_faceVecs a faceVecs ks n =
     Inr (foldl (vec3_add a) n (map (\<lambda>k. the (faceVecs ! k)) ks))"
proof (induction ks arbitrary: n)
  case Nil
  then show ?case by simp
next
  case (Cons k ks)
  then obtain fx fy fz where f: "faceVecs ! k = Some (fx, fy, fz)" and k: "k < length faceVecs"
    by (cases "faceVecs ! k") auto
  from Cons show ?case
    by (simp add: js_index_holes_def element_of_def vec3_fromValues_def f k)
qed

lemma vertexNormals_loop_eq:
  "\<forall>i\<in>set is. i < length norms \<and> (\<forall>k\<in>set (adjacency ! i). k < length faceVecs \<and> faceVecs ! k \<noteq> None) \<Longrightarrow>
   vertexNormals_loop a adjacency faceVecs is norms =
     Inr (foldl (\<lambda>ns i. ns[i := Some (vec3_normalize a (vertex_sum a faceVecs (adjacency ! i)))]) norms is)"
proof (induction "is" arbitrary: norms)
  case Nil
  then show ?case by simp
next
  case (Cons i "is")
  then show ?case
    by (simp add: sum_faceVecs_eq vertex_sum_def vec3_fromValues_def)
qed

lemma foldl_store_upt:
  "n \<le> length norms \<Longrightarrow>
   foldl (\<lambda>ns i. ns[i := Some (g i)]) norms [0..<n] = map (\<lambda>i. Some (g i)) [0..<n] @ drop n norms"
proof (induction n)
  case 0
  then show ?case by simp
next
  case (Suc n)
  then have "n < length norms" by simp
  then have "(drop n norms)[0 := Some (g n)] = Some (g n) # drop (Suc n) norms"
    by (simp add: Cons_nth_drop_Suc [symmetric])
  with Suc show ?case
    by (simp add: list_update_append)
qed

lemma faceVectors_eq:
  "in_range (length verts) ind \<Longrightarrow>
   faceVectors a verts ind = Inr (scatter (face_vector a verts) ind (replicate (length verts) None))"
  by (simp add: faceVectors_def faceVectors_loop_scatter)

lemma vertexNormals_eq:
  assumes "in_range (length verts) ind"
  shows "vertexNormals a verts ind =
     Inr (map (\<lambda>v. Some (vec3_normalize a
            (vertex_sum a (scatter (face_vector a verts) ind (replicate (length verts) None))
               (adjacency_of ind v))))
          [0..<length verts])"
proof -
  let ?n = "length verts"
  let ?fv = "scatter (face_vector a verts) ind (replicate ?n None)"
  let ?adj = "map (adjacency_of ind) [0..<?n]"
  have adj: "adjacency_loop ind (replicate ?n []) = Inr ?adj"
    using assms adjacency_loop_eq [of "replicate ?n []" ind] by (simp cong: map_cong)
  have ok: "\<forall>i\<in>set [0..<?n]. i < length (replicate ?n (None :: point option))
      \<and> (\<forall>k\<in>set (?adj ! i). k < length ?fv \<and> ?fv ! k \<noteq> None)"
  proof (intro ballI conjI)
    fix i assume "i \<in> set [0..<?n]"
    then show "i < length (replicate ?n (None :: point option))" by simp
  next
    fix i k assume i: "i \<in> set [0..<?n]" and k: "k \<in> set (?adj ! i)"
    then have "k \<in> set (adjacency_of ind i)" by simp
    from adjacency_of_corner [OF assms this] have kn: "k < ?n" and c: "\<exists>t\<in>set ind. corner k t"
      by simp_all
    from kn show "k < length ?fv" by simp
    from c have "last_triangle ind k \<noteq> None" by (simp add: last_triangle_None_iff)
    with kn assms show "?fv ! k \<noteq> None" by (simp add: scatter_replicate_nth)
  qed
  have "vertexNormals a verts ind =
      Inr (foldl (\<lambda>ns i. ns[i := Some (vec3_normalize a (vertex_sum a ?fv (?adj ! i)))])
        (replicate ?n None) [0..<?n])"
    unfolding vertexNormals_def adj faceVectors_eq [OF assms]
    using vertexNormals_loop_eq [OF ok, of a] by simp
  also have "foldl (\<lambda>ns i. ns[i := Some (vec3_normalize a (vertex_sum a ?fv (?adj ! i)))])
        (replicate ?n None) [0..<?n] =
      map (\<lambda>i. Some (vec3_normalize a (vertex_sum a ?fv (?adj ! i)))) [0..<?n]"
    by (simp add: foldl_store_upt)
  also have "\<dots> = map (\<lambda>v. Some (vec3_normalize a (vertex_sum a ?fv (adjacency_of ind v)))) [0..<?n]"
    by (simp cong: map_cong)
  finally show ?thesis .
qed

text \<open>
  What \<^verbatim>\<open>vertexNormals\<close> computes, with every index in range: each vertex receives two
  adjacency entries for each corner slot that holds it; the face-vector array has one
  entry per point, keyed by point index, holding the raw cross product of the triangle
  processed last among those with that corner; and the result holds, for each vertex,
  the normalized sum of the entries of that array at the vertex's adjacency entries, the
  indices of its neighbours.
\<close>

lemma vertexNormals_point_indexed:
  assumes "in_range (length verts) ind"
  shows "adjacency_loop ind (replicate (length verts) []) =
           Inr (map (adjacency_of ind) [0..<length verts])
       \<and> (\<forall>v. length (adjacency_of ind v) = 2 * count_list (concat (map coords ind)) v)
       \<and> (list_all proper ind \<longrightarrow>
            (\<forall>v. length (adjacency_of ind v) = 2 * length (filter (corner v) ind)))
       \<and> (\<exists>faceVecs. faceVectors a verts ind = Inr faceVecs \<and> length faceVecs = length verts
            \<and> (\<forall>p<length verts.
                  faceVecs ! p = map_option (face_vector a verts) (last_triangle ind p))
            \<and> vertexNormals a verts ind =
                Inr (map (\<lambda>v. Some (vec3_normalize a (vertex_sum a faceVecs (adjacency_of ind v))))
                       [0..<length verts]))"
proof (intro conjI)
  show "adjacency_loop ind (replicate (length verts) []) =
           Inr (map (adjacency_of ind) [0..<length verts])"
    using assms adjacency_loop_eq [of "replicate (length verts) []" ind] by (simp cong: map_cong)
  show "\<forall>v. length (adjacency_of ind v) = 2 * count_list (concat (map coords ind)) v"
    by (simp add: length_adjacency_of)
  show "list_all proper ind \<longrightarrow>
            (\<forall>v. length (adjacency_of ind v) = 2 * length (filter (corner v) ind))"
    by (simp add: length_adjacency_of_proper)
  show "\<exists>faceVecs. faceVectors a verts ind = Inr faceVecs \<and> length faceVecs = length verts
            \<and> (\<forall>p<length verts.
                  faceVecs ! p = map_option (face_vector a verts) (last_triangle ind p))
            \<and> vertexNormals a verts ind =
                Inr (map (\<lambda>v. Some (vec3_normalize a (vertex_sum a faceVecs (adjacency_of ind v))))
                       [0..<length verts])"
    using assms by (simp add: faceVectors_eq vertexNormals_eq scatter_replicate_nth)
qed

subsection \<open>Lengths of the outputs\<close>

lemma length_unwrapArray: "length (unwrapArray v ind) = 3 * length ind"
  by (induction ind) (auto simp: unwrapArray_def unwrapArray_loop_eq)

lemma div9: "i < n \<Longrightarrow> (n - i + 8) div 9 = Suc ((n - (i + 9) + 8) div 9)" for i n :: nat
proof -
  assume "i < n"
  then obtain k where "n = i + 1 + k" by (metis Suc_eq_plus1 less_imp_Suc_add add.assoc add.commute)
  then show ?thesis by simp
qed

lemma div3: "i < n \<Longrightarrow> (n - i + 2) div 3 = Suc ((n - (i + 3) + 2) div 3)" for i n :: nat
proof -
  assume "i < n"
  then obtain k where "n = i + 1 + k" by (metis Suc_eq_plus1 less_imp_Suc_add add.assoc add.commute)
  then show ?thesis by simp
qed

lemma length_surfaceVariation_loop:
  "length (snd (surfaceVariation_loop a verts vNorms i largest smallest scalars)) =
     length scalars + 3 * ((length verts - i + 8) div 9)"
proof (induction a verts vNorms i largest smallest scalars rule: surfaceVariation_loop.induct)
  case (1 a verts vNorms i largest smallest scalars)
  show ?case
  proof (cases "i < length verts")
    case True
    note IH = "1.IH" [OF True refl refl]
    from True IH show ?thesis
      unfolding div9 [OF True]
      by (subst surfaceVariation_loop.simps) (simp add: Let_def)
  next
    case False
    then show ?thesis
      by (subst surfaceVariation_loop.simps) simp
  qed
qed

lemma length_surfaceVariation:
  "length (surfaceVariation a verts vNorms) = 3 * ((length verts + 8) div 9)"
  using length_surfaceVariation_loop [of a verts vNorms 0 NInf PInf "[]"]
  by (cases "surfaceVariation_loop a verts vNorms 0 NInf PInf []") (simp add: surfaceVariation_def)

lemma length_surfaceOrientation_loop:
  "length (surfaceOrientation_loop a norms i regions) =
     length regions + (length norms - i + 2) div 3"
proof (induction a norms i regions rule: surfaceOrientation_loop.induct)
  case (1 a norms i regions)
  show ?case
  proof (cases "i < length norms")
    case True
    from True "1.IH" [OF True] show ?thesis
      unfolding div3 [OF True]
      by (subst surfaceOrientation_loop.simps) simp
  next
    case False
    then show ?thesis
      by (subst surfaceOrientation_loop.simps) simp
  qed
qed

lemma length_surfaceOrientation:
  "length (surfaceOrientation a norms) = (length norms + 2) div 3"
  by (simp add: surfaceOrientation_def length_surfaceOrientation_loop)

text \<open>
  C8. With every index in range: the unwrapped scalar array has three entries per
  triangle; the arrays of \<^verbatim>\<open>faceNormals\<close> and \<^verbatim>\<open>vertexNormals\<close> have the length of
  the point array; the unwrapped point and normal arrays hold nine numbers per
  triangle, and \<^verbatim>\<open>surfaceVariation\<close> and \<^verbatim>\<open>surfaceOrientation\<close> return one scalar for
  each of their three-number vertex slots, three per triangle.
\<close>

theorem output_lengths:
  assumes "in_range (length verts) ind" and "length vnorms = length verts"
  shows "length (unwrapArray v ind) = 3 * length ind
       \<and> (\<exists>fn. faceNormals a verts ind = Inr fn \<and> length fn = length verts)
       \<and> (\<exists>vn. vertexNormals a verts ind = Inr vn \<and> length vn = length verts)
       \<and> (\<exists>uverts unorms.
            unwrapVectorArray verts ind = Inr uverts \<and> unwrapVectorArray vnorms ind = Inr unorms
            \<and> length uverts = 9 * length ind \<and> length unorms = 9 * length ind
            \<and> length (surfaceVariation a uverts unorms) = 3 * length ind
            \<and> length (surfaceOrientation a unorms) = 3 * length ind)"
proof (intro conjI)
  show "length (unwrapArray v ind) = 3 * length ind"
    by (rule length_unwrapArray)
  show "\<exists>fn. faceNormals a verts ind = Inr fn \<and> length fn = length verts"
    using assms(1) by (simp add: faceNormals_def faceNormals_loop_scatter)
  show "\<exists>vn. vertexNormals a verts ind = Inr vn \<and> length vn = length verts"
    using assms(1) by (simp add: vertexNormals_eq)
  let ?flat = "\<lambda>w :: point list. concat (map (\<lambda>(i0, i1, i2). coords (w ! i0) @ coords (w ! i1) @ coords (w ! i2)) ind)"
  have len: "length (?flat w) = 9 * length ind" for w
    by (induction ind) (auto simp: coords_def split: prod.splits)
  show "\<exists>uverts unorms.
            unwrapVectorArray verts ind = Inr uverts \<and> unwrapVectorArray vnorms ind = Inr unorms
            \<and> length uverts = 9 * length ind \<and> length unorms = 9 * length ind
            \<and> length (surfaceVariation a uverts unorms) = 3 * length ind
            \<and> length (surfaceOrientation a unorms) = 3 * length ind"
  proof (intro exI conjI)
    show "unwrapVectorArray verts ind = Inr (?flat verts)"
      using assms by (simp add: unwrapVectorArray_def unwrapVectorArray_loop_eq)
    show "unwrapVectorArray vnorms ind = Inr (?flat vnorms)"
      using assms by (simp add: unwrapVectorArray_def unwrapVectorArray_loop_eq)
    show "length (?flat verts) = 9 * length ind" "length (?flat vnorms) = 9 * length ind"
      by (rule len)+
    show "length (surfaceVariation a (?flat verts) (?flat vnorms)) = 3 * length ind"
      by (simp add: length_surfaceVariation len)
    show "length (surfaceOrientation a (?flat vnorms)) = 3 * length ind"
      by (simp add: length_surfaceOrientation len)
  qed
qed

theorem output_lengths_witness:
  "in_range 3 [(0, 1, 2), (0, 2, 1)]
   \<and> length (unwrapArray [10, 20, 30 :: int] [(0, 1, 2), (0, 2, 1)]) = 6
   \<and> (\<exists>fn. faceNormals exact [(Num 0, Num 0, Num 0), (Num 1, Num 0, Num 0), (Num 0, Num 1, Num 0)]
          [(0, 1, 2), (0, 2, 1)] = Inr fn \<and> length fn = 3)
   \<and> (\<exists>vn. vertexNormals exact [(Num 0, Num 0, Num 0), (Num 1, Num 0, Num 0), (Num 0, Num 1, Num 0)]
          [(0, 1, 2), (0, 2, 1)] = Inr vn \<and> length vn = 3)
   \<and> (\<exists>uverts unorms.
         unwrapVectorArray [(Num 0, Num 0, Num 0), (Num 1, Num 0, Num 0), (Num 0, Num 1, Num 0)]
           [(0, 1, 2), (0, 2, 1)] = Inr uverts
       \<and> unwrapVectorArray [(Num 0, Num 0, Num 1), (Num 0, Num 0, Num 1), (Num 0, Num 0, Num 1)]
           [(0, 1, 2), (0, 2, 1)] = Inr unorms
       \<and> length uverts = 18 \<and> length unorms = 18
       \<and> length (surfaceVariation exact uverts unorms) = 6
       \<and> length (surfaceOrientation exact unorms) = 6)"
proof -
  let ?P = "[(Num 0, Num 0, Num 0), (Num 1, Num 0, Num 0), (Num 0, Num 1, Num 0)]"
  let ?N = "[(Num 0, Num 0, Num 1), (Num 0, Num 0, Num 1), (Num 0, Num 0, Num 1)]"
  let ?ind = "[(0, 1, 2), (0, 2, 1)] :: triangle list"
  have r: "in_range (length ?P) ?ind" by simp
  have l: "length ?N = length ?P" by simp
  have lens: "length ?P = 3" "3 * length ?ind = 6" "9 * length ?ind = 18" by simp_all
  note th = output_lengths [OF r l, of "[10, 20, 30 :: int]" exact, unfolded lens]
  show ?thesis
    apply (rule conjI)
     apply (rule r [unfolded lens])
    apply (rule th)
    done
qed

subsection \<open>The two arithmetics\<close>

lemma exact_simps [simp]: "rnd exact = Num" "Math_PI exact = Num pi"
  by (simp_all add: exact_def)

lemma jsub_Num [simp]: "jsub a (Num p) (Num q) = rnd a (p - q)"
  by (simp add: jsub_def)

subsection \<open>Evaluation under IEEE-754 rounding\<close>

lemma round_even_near: "\<bar>x - of_int n\<bar> < 1 / 2 \<Longrightarrow> round_even x = n"
proof -
  assume a: "\<bar>x - of_int n\<bar> < 1 / 2"
  show ?thesis
  proof (cases "of_int n \<le> x")
    case True
    with a have "\<lfloor>x\<rfloor> = n" by (intro floor_unique) auto
    with a True show ?thesis by (simp add: round_even_def)
  next
    case False
    with a have f: "\<lfloor>x\<rfloor> = n - 1" by (intro floor_unique) auto
    from a False have "1 / 2 < x - of_int (n - 1)" by simp
    with f show ?thesis by (simp add: round_even_def)
  qed
qed

lemma binary64_eval:
  assumes "2 powr (of_int e) \<le> \<bar>x\<bar>" and "\<bar>x\<bar> < 2 powr (of_int e + 1)" and "- 1022 \<le> e"
    and "\<bar>x / 2 powr (of_int e - 52) - of_int n\<bar> < 1 / 2"
    and "\<bar>of_int n * 2 powr (of_int e - 52)\<bar> < (2 :: real) ^ 1024"
  shows "binary64 x = Num (of_int n * 2 powr (of_int e - 52))"
proof -
  have "0 < (2 :: real) powr (of_int e)" by simp
  with assms(1) have x: "x \<noteq> 0" "0 < \<bar>x\<bar>" by auto
  from assms(1,2) x have "\<lfloor>log 2 \<bar>x\<bar>\<rfloor> = e"
    by (simp add: floor_log_eq_powr_iff)
  with assms(3) have e: "max \<lfloor>log 2 \<bar>x\<bar>\<rfloor> (- 1022) = e" by simp
  from assms(4) have r: "round_even (x / 2 powr (of_int e - 52)) = n" by (rule round_even_near)
  from assms(5) have "\<not> (2 :: real) ^ 1024 \<le> \<bar>of_int n * 2 powr (of_int e - 52)\<bar>" by simp
  then show ?thesis
    unfolding binary64_def Let_def e r using x by simp
qed

lemma binary64_1: "binary64 1 = Num 1"
  using binary64_eval [of 0 1 "2 ^ 52"] by (simp add: powr_neg_numeral)

lemma binary64_7: "binary64 7 = Num 7"
  using binary64_eval [of 2 7 "7 * 2 ^ 50"] by (simp add: powr_neg_numeral)

lemma binary64_8: "binary64 8 = Num 8"
  using binary64_eval [of 3 8 "2 ^ 52"] by (simp add: powr_neg_numeral)

lemma binary64_tiny: "binary64 (1 / 2 ^ 120) = Num (1 / 2 ^ 120)"
  using binary64_eval [of "- 120" "1 / 2 ^ 120" "2 ^ 52"] by (simp add: powr_neg_numeral)

lemma binary64_y: "binary64 (- (1 / 2 ^ 60)) = Num (- (1 / 2 ^ 60))"
  using binary64_eval [of "- 60" "- (1 / 2 ^ 60)" "- (2 ^ 52)"] by (simp add: powr_neg_numeral)

lemma binary64_one_plus: "binary64 (1 + 1 / 2 ^ 120) = Num 1"
  using binary64_eval [of 0 "1 + 1 / 2 ^ 120" "2 ^ 52"] by (simp add: powr_neg_numeral)

lemma binary64_two_pi: "binary64 (884279719003555 / 2 ^ 47) = Num (884279719003555 / 2 ^ 47)"
  using binary64_eval [of 2 "884279719003555 / 2 ^ 47" "884279719003555 * 8"] by (simp add: powr_neg_numeral)

lemma binary64_quarter_pi: "binary64 (884279719003555 / 2 ^ 50) = Num (884279719003555 / 2 ^ 50)"
  using binary64_eval [of "- 1" "884279719003555 / 2 ^ 50" "884279719003555 * 8"] by (simp add: powr_neg_numeral)

lemma binary64_wrap:
  "binary64 (- (1 / 2 ^ 60) + 884279719003555 / 2 ^ 47) = Num (884279719003555 / 2 ^ 47)"
  using binary64_eval [of 2 "- (1 / 2 ^ 60) + 884279719003555 / 2 ^ 47" "884279719003555 * 8"] by (simp add: powr_neg_numeral)

lemma binary64_eight_sevenths: "binary64 (8 / 7) = Num (5146971002709138 / 2 ^ 52)"
  using binary64_eval [of 0 "8 / 7" 5146971002709138] by (simp add: powr_neg_numeral)

lemma arctan_bounds_pos:
  assumes "0 < x"
  shows "x / (1 + x\<^sup>2) < arctan x" and "arctan x < x"
proof -
  from MVT2 [of 0 x arctan "\<lambda>z. inverse (1 + z\<^sup>2)"] assms
  obtain z where z: "0 < z" "z < x" and eq: "arctan x - arctan 0 = (x - 0) * inverse (1 + z\<^sup>2)"
    using DERIV_arctan by blast
  then have a: "arctan x = x / (1 + z\<^sup>2)" by (simp add: divide_inverse)
  from z have "z\<^sup>2 < x\<^sup>2" by (simp add: power_strict_mono)
  moreover from z have "0 < z\<^sup>2" by simp
  ultimately have b: "1 < 1 + z\<^sup>2" "1 + z\<^sup>2 < 1 + x\<^sup>2" by simp_all
  have pos: "0 < (1 + x\<^sup>2) * (1 + z\<^sup>2)"
    by (intro mult_pos_pos add_pos_nonneg) simp_all
  from b assms pos show "x / (1 + x\<^sup>2) < arctan x"
    unfolding a by (intro divide_strict_left_mono) simp_all
  have "0 < 1 + z\<^sup>2" by (intro add_pos_nonneg) simp_all
  with b assms have "x / (1 + z\<^sup>2) < x / 1"
    by (intro divide_strict_left_mono) simp_all
  then show "arctan x < x" unfolding a by simp
qed

lemma binary64_arctan: "binary64 (arctan (- (1 / 2 ^ 60))) = Num (- (1 / 2 ^ 60))"
proof -
  define a where "a = arctan (1 / 2 ^ 60)"
  have l: "(1 / 2 ^ 60) / (1 + (1 / 2 ^ 60)\<^sup>2) < a" and hi: "a < 1 / 2 ^ 60"
    unfolding a_def by (rule arctan_bounds_pos, simp)+
  have "(1 / 2 ^ 60 - 1 / 2 ^ 114 :: real) \<le> (1 / 2 ^ 60) / (1 + (1 / 2 ^ 60)\<^sup>2)"
    by (simp add: power2_eq_square)
  from this l have lo: "1 / 2 ^ 60 - 1 / 2 ^ 114 < a" by (rule le_less_trans)
  have m: "arctan (- (1 / 2 ^ 60)) = - a" by (simp add: a_def arctan_minus)
  from lo hi have p1: "2 powr (of_int (- 61)) \<le> \<bar>- a\<bar>"
    by (simp add: powr_neg_numeral)
  from lo hi have p2: "\<bar>- a\<bar> < 2 powr (of_int (- 61) + 1)"
    by (simp add: powr_neg_numeral)
  from lo hi have p4: "\<bar>- a / 2 powr (of_int (- 61) - 52) - of_int (- (2 ^ 53))\<bar> < 1 / 2"
    by (simp add: powr_neg_numeral)
  have p5: "\<bar>of_int (- (2 ^ 53)) * 2 powr (of_int (- 61) - 52)\<bar> < (2 :: real) ^ 1024"
    by (simp add: powr_neg_numeral)
  from binary64_eval [OF p1 p2 _ p4 p5] show ?thesis
    unfolding m by (simp add: powr_neg_numeral)
qed

lemma ieee_simps [simp]: "rnd ieee = binary64" "Math_PI ieee = Num (884279719003555 / 2 ^ 48)"
  by (simp_all add: ieee_def)

lemmas binary64_values =
  binary64_1 binary64_7 binary64_8 binary64_tiny [simplified] binary64_y [simplified]
  binary64_one_plus [simplified] binary64_two_pi [simplified] binary64_quarter_pi [simplified]
  binary64_wrap [simplified] binary64_eight_sevenths [simplified] binary64_arctan [simplified]

lemma orientation_region_example:
  "orientation_region ieee [Num 1, Num (- (1 / 2 ^ 60)), Num 0] 0 = Num (5146971002709138 / 2 ^ 52)"
  by (simp add: orientation_region_def vec2_fromValues_def num_at_def js_index_def
      angleRangeClamp_def jgt_def atan2_def binary64_values)

text \<open>
  Rounding leaves every integer below \<open>2\<^sup>5\<^sup>3\<close> in magnitude as it is, takes \<open>2\<^sup>1\<^sup>0\<^sup>2\<^sup>4\<close> to
  infinity, and moves a real of magnitude at most \<open>2\<^sup>1\<^sup>0\<^sup>2\<^sup>3\<close> by at most the fraction
  \<open>2\<^sup>-\<^sup>5\<^sup>3\<close> of its magnitude plus \<open>2\<^sup>-\<^sup>1\<^sup>0\<^sup>7\<^sup>5\<close>.
\<close>

lemma round_even_of_int: "round_even (of_int n) = n"
  by (rule round_even_near) simp

lemma powr_neg_nat: "(2 :: real) powr (- real m) = 1 / 2 ^ m"
  by (simp add: powr_minus_divide powr_realpow)

lemma powr_shift:
  assumes "e \<le> 52"
  shows "(2 :: real) powr (of_int e - 52) = 1 / 2 ^ nat (52 - e)"
proof -
  have "real_of_int e - 52 = - real (nat (52 - e))"
    using assms by simp
  then show ?thesis by (simp only: powr_neg_nat)
qed

lemma binary64_of_int:
  assumes "\<bar>k\<bar> < 2 ^ 53"
  shows "binary64 (of_int k) = Num (of_int k)"
proof (cases "k = 0")
  case True
  then show ?thesis by (simp add: binary64_def)
next
  case False
  define x :: real where "x = \<bar>of_int k\<bar>"
  define e where "e = \<lfloor>log 2 x\<rfloor>"
  have xk: "x = of_int \<bar>k\<bar>" by (simp add: x_def)
  from False have "1 \<le> \<bar>k\<bar>" by linarith
  then have k1: "1 \<le> x" unfolding xk by linarith
  then have pos: "0 < x" by linarith
  from k1 have "0 \<le> log 2 x" by simp
  then have e0: "0 \<le> e" by (simp add: e_def)
  from assms have "real_of_int \<bar>k\<bar> < real_of_int (2 ^ 53)" by (simp only: of_int_less_iff)
  then have x53: "x < 2 ^ 53" unfolding xk by simp
  then have "log 2 x < 53"
    using pos by (simp add: log_less_iff powr_realpow [symmetric])
  then have e52: "e \<le> 52" by (simp add: e_def floor_le_iff)
  have b: "2 powr (of_int e) \<le> x" "x < 2 powr (of_int e + 1)"
    using pos floor_log_eq_powr_iff [of x 2 e] by (simp_all add: e_def)
  define n where "n = k * 2 ^ nat (52 - e)"
  note p = powr_shift [OF e52]
  have q: "real_of_int k / 2 powr (of_int e - 52) = of_int n"
    unfolding p by (simp add: n_def)
  have r: "of_int n * 2 powr (of_int e - 52) = (of_int k :: real)"
    unfolding p by (simp add: n_def)
  have "(2 :: real) ^ 53 \<le> 2 ^ 1024" by simp
  with x53 have big: "x < 2 ^ 1024" by linarith
  have a4: "\<bar>real_of_int k / 2 powr (of_int e - 52) - of_int n\<bar> < 1 / 2"
    unfolding q by simp
  have a5: "\<bar>of_int n * 2 powr (of_int e - 52)\<bar> < (2 :: real) ^ 1024"
    unfolding r using big by (simp only: x_def)
  from e0 have a3: "- 1022 \<le> e" by simp
  from binary64_eval [OF b [unfolded x_def] a3 a4 a5] show ?thesis
    by (simp only: r)
qed

lemma binary64_numeral:
  "numeral w < (2 :: real) ^ 53 \<Longrightarrow> binary64 (numeral w) = Num (numeral w)"
proof -
  assume "numeral w < (2 :: real) ^ 53"
  then have "real_of_int (numeral w) < real_of_int (2 ^ 53)" by simp
  then have "(numeral w :: int) < 2 ^ 53" by (simp only: of_int_less_iff)
  then have "\<bar>numeral w :: int\<bar> < 2 ^ 53" by simp
  from binary64_of_int [OF this] show ?thesis by simp
qed

lemma binary64_neg_numeral:
  "numeral w < (2 :: real) ^ 53 \<Longrightarrow> binary64 (- numeral w) = Num (- numeral w)"
proof -
  assume "numeral w < (2 :: real) ^ 53"
  then have "real_of_int (numeral w) < real_of_int (2 ^ 53)" by simp
  then have "(numeral w :: int) < 2 ^ 53" by (simp only: of_int_less_iff)
  then have "\<bar>- numeral w :: int\<bar> < 2 ^ 53" by simp
  from binary64_of_int [OF this] show ?thesis by simp
qed

lemma binary64_0: "binary64 0 = Num 0"
  by (simp add: binary64_def)

lemma binary64_one: "binary64 1 = Num 1"
  using binary64_of_int [of 1] by simp

lemma binary64_neg_one: "binary64 (- 1) = Num (- 1)"
  using binary64_of_int [of "- 1"] by simp

lemmas binary64_int =
  binary64_0 binary64_one binary64_neg_one binary64_numeral binary64_neg_numeral

lemma binary64_big: "binary64 (2 ^ 1023) = Num (2 ^ 1023)"
  using binary64_eval [of 1023 "2 ^ 1023" "2 ^ 52"]
  by (simp add: powr_realpow [symmetric] powr_diff [symmetric] powr_add [symmetric])

lemma round_even_numeral: "round_even (numeral w) = numeral w"
  using round_even_of_int [of "numeral w"] by simp

lemma binary64_overflow: "binary64 (2 ^ 1023 + 2 ^ 1023) = PInf"
proof -
  have x: "(2 ^ 1023 + 2 ^ 1023 :: real) = 2 ^ 1024" by simp
  have "log 2 ((2 :: real) ^ 1024) = real 1024 * log 2 2" by (intro log_nat_power) simp
  also have "\<dots> = 1024" by simp
  finally have lg: "log 2 ((2 :: real) ^ 1024) = 1024" .
  have a: "\<bar>2 ^ 1024 :: real\<bar> = 2 ^ 1024" by (rule abs_of_nonneg) simp
  have l: "\<lfloor>log 2 \<bar>2 ^ 1024 :: real\<bar>\<rfloor> = 1024" unfolding a lg by simp
  have w: "(2 :: real) powr (of_int 1024 - 52) = 2 ^ 972"
    by (simp add: powr_realpow [symmetric])
  have q: "(2 ^ 1024 :: real) / 2 ^ 972 = of_int (2 ^ 52)"
    by (simp add: power_diff)
  have r: "round_even ((2 ^ 1024 :: real) / 2 ^ 972) = 2 ^ 52"
    unfolding q by (rule round_even_of_int)
  have y: "real_of_int (2 ^ 52) * 2 ^ 972 = 2 ^ 1024"
    by (simp add: power_add [symmetric])
  show ?thesis
    unfolding x binary64_def Let_def l max_def w r y
    by (simp add: round_even_numeral)
qed

lemma round_even_error: "\<bar>of_int (round_even x) - x\<bar> \<le> 1 / 2"
proof -
  define d where "d = x - of_int \<lfloor>x\<rfloor>"
  have d: "0 \<le> d" "d < 1" unfolding d_def by linarith+
  have x: "x = of_int \<lfloor>x\<rfloor> + d" by (simp add: d_def)
  consider "d < 1 / 2" | "1 / 2 < d" | "d = 1 / 2" by linarith
  then show ?thesis
  proof cases
    case 1
    then have "round_even x = \<lfloor>x\<rfloor>" by (simp add: round_even_def d_def)
    with 1 d show ?thesis unfolding d_def by simp
  next
    case 2
    then have "round_even x = \<lfloor>x\<rfloor> + 1" by (simp add: round_even_def d_def)
    with 2 d show ?thesis unfolding d_def by simp
  next
    case 3
    then have "round_even x = \<lfloor>x\<rfloor> \<or> round_even x = \<lfloor>x\<rfloor> + 1"
      by (simp add: round_even_def d_def Let_def)
    with 3 show ?thesis unfolding d_def by auto
  qed
qed

lemma binary64_error:
  assumes "\<bar>x\<bar> \<le> 2 ^ 1023"
  shows "\<exists>y. binary64 x = Num y \<and> \<bar>y - x\<bar> \<le> \<bar>x\<bar> / 2 ^ 53 + 1 / 2 ^ 1075"
proof (cases "x = 0")
  case True
  then show ?thesis by (simp add: binary64_def)
next
  case False
  define e where "e = max \<lfloor>log 2 \<bar>x\<bar>\<rfloor> (- 1022)"
  define w :: real where "w = 2 powr (of_int e - 52)"
  define y where "y = of_int (round_even (x / w)) * w"
  have w0: "0 < w" by (simp add: w_def)
  have "\<bar>of_int (round_even (x / w)) - x / w\<bar> \<le> 1 / 2" by (rule round_even_error)
  then have "\<bar>of_int (round_even (x / w)) - x / w\<bar> * w \<le> 1 / 2 * w"
    using w0 by (intro mult_right_mono) simp_all
  moreover have "\<bar>of_int (round_even (x / w)) - x / w\<bar> * w = \<bar>y - x\<bar>"
  proof -
    have "\<bar>of_int (round_even (x / w)) - x / w\<bar> * w = \<bar>(of_int (round_even (x / w)) - x / w) * w\<bar>"
      using w0 by (simp add: abs_mult)
    also have "(of_int (round_even (x / w)) - x / w) * w = y - x"
      using w0 by (simp add: y_def algebra_simps)
    finally show ?thesis .
  qed
  ultimately have d: "\<bar>y - x\<bar> \<le> w / 2" by simp
  have pos: "0 < \<bar>x\<bar>" using False by simp
  have wb: "w / 2 \<le> \<bar>x\<bar> / 2 ^ 53 + 1 / 2 ^ 1075"
  proof (cases "- 1022 \<le> \<lfloor>log 2 \<bar>x\<bar>\<rfloor>")
    case True
    then have e: "e = \<lfloor>log 2 \<bar>x\<bar>\<rfloor>" by (simp add: e_def)
    have "of_int e \<le> log 2 \<bar>x\<bar>" unfolding e by simp
    then have "2 powr (of_int e) \<le> \<bar>x\<bar>"
      using pos by (simp add: le_log_iff)
    moreover have "w / 2 = 2 powr (of_int e) / 2 ^ 53"
      by (simp add: w_def powr_diff)
    ultimately have "w / 2 \<le> \<bar>x\<bar> / 2 ^ 53" by (simp add: divide_right_mono)
    then show ?thesis by (smt (verit) divide_nonneg_pos zero_less_power zero_le_one)
  next
    case False
    then have e: "e = - 1022" by (simp add: e_def)
    have "w / 2 = 1 / 2 ^ 1075"
      unfolding w_def e by (simp add: powr_neg_numeral)
    moreover have "0 \<le> \<bar>x\<bar> / 2 ^ 53" by simp
    ultimately show ?thesis by linarith
  qed
  from d wb have err: "\<bar>y - x\<bar> \<le> \<bar>x\<bar> / 2 ^ 53 + 1 / 2 ^ 1075" by linarith
  have "\<bar>y\<bar> \<le> \<bar>x\<bar> + \<bar>y - x\<bar>" by linarith
  also have "\<dots> \<le> \<bar>x\<bar> + \<bar>x\<bar> / 2 ^ 53 + 1 / 2 ^ 1075" using err by linarith
  also have "\<dots> \<le> 2 ^ 1023 + 2 ^ 1023 / 2 ^ 53 + 1 / 2 ^ 1075"
    using assms by (intro add_mono divide_right_mono) simp_all
  also have "\<dots> < 2 ^ 1024" by simp
  finally have "\<not> 2 ^ 1024 \<le> \<bar>y\<bar>" by simp
  then have "binary64 x = Num y"
    using False unfolding binary64_def Let_def e_def [symmetric] w_def [symmetric] y_def [symmetric]
    by simp
  with err show ?thesis by blast
qed

lemma rounds_ieee: "rounds ieee (1 / 2 ^ 53) (1 / 2 ^ 1075) (2 ^ 1023)"
  unfolding rounds_def using binary64_error by (simp add: field_simps)

subsection \<open>vertexNormals on a tetrahedron\<close>

lemma tetra_faceVectors:
  "faceVectors ieee
      [(Num 1, Num 1, Num 1), (Num 1, Num (- 1), Num (- 1)), (Num (- 1), Num 1, Num (- 1)),
       (Num (- 1), Num (- 1), Num 1)]
      [(0, 1, 2), (0, 2, 3), (0, 3, 1), (1, 3, 2)] =
     Inr [Some (Num 4, Num (- 4), Num 4), Some (Num (- 4), Num (- 4), Num (- 4)),
          Some (Num (- 4), Num (- 4), Num (- 4)), Some (Num (- 4), Num (- 4), Num (- 4))]"
  by (simp add: faceVectors_def face_edges.simps js_index_def element_of_def vec3_fromValues_def
      jsub_def Let_def binary64_int eval_nat_numeral)

lemma tetra_adjacency:
  "adjacency_loop [(0, 1, 2), (0, 2, 3), (0, 3, 1), (1, 3, 2)]
      (replicate (length [(Num 1, Num 1, Num 1), (Num 1, Num (- 1), Num (- 1)),
         (Num (- 1), Num 1, Num (- 1)), (Num (- 1), Num (- 1), Num 1)]) []) =
     Inr [[1, 2, 2, 3, 3, 1], [0, 2, 0, 3, 3, 2], [0, 1, 0, 3, 1, 3], [0, 2, 0, 1, 1, 2]]"
  by (simp add: adjacency_push_def eval_nat_numeral)

lemma tetra_sums:
  "sum_faceVecs ieee [Some (Num 4, Num (- 4), Num 4), Some (Num (- 4), Num (- 4), Num (- 4)),
          Some (Num (- 4), Num (- 4), Num (- 4)), Some (Num (- 4), Num (- 4), Num (- 4))]
      [1, 2, 2, 3, 3, 1] (vec3_fromValues (Num 0) (Num 0) (Num 0)) =
     Inr (Num (- 24), Num (- 24), Num (- 24))"
  "sum_faceVecs ieee [Some (Num 4, Num (- 4), Num 4), Some (Num (- 4), Num (- 4), Num (- 4)),
          Some (Num (- 4), Num (- 4), Num (- 4)), Some (Num (- 4), Num (- 4), Num (- 4))]
      [0, 2, 0, 3, 3, 2] (vec3_fromValues (Num 0) (Num 0) (Num 0)) =
     Inr (Num (- 8), Num (- 24), Num (- 8))"
  "sum_faceVecs ieee [Some (Num 4, Num (- 4), Num 4), Some (Num (- 4), Num (- 4), Num (- 4)),
          Some (Num (- 4), Num (- 4), Num (- 4)), Some (Num (- 4), Num (- 4), Num (- 4))]
      [0, 1, 0, 3, 1, 3] (vec3_fromValues (Num 0) (Num 0) (Num 0)) =
     Inr (Num (- 8), Num (- 24), Num (- 8))"
  "sum_faceVecs ieee [Some (Num 4, Num (- 4), Num 4), Some (Num (- 4), Num (- 4), Num (- 4)),
          Some (Num (- 4), Num (- 4), Num (- 4)), Some (Num (- 4), Num (- 4), Num (- 4))]
      [0, 2, 0, 1, 1, 2] (vec3_fromValues (Num 0) (Num 0) (Num 0)) =
     Inr (Num (- 8), Num (- 24), Num (- 8))"
  by (simp_all add: js_index_holes_def element_of_def vec3_fromValues_def binary64_int
      eval_nat_numeral)

lemma tetra_vertexNormals:
  "vertexNormals ieee
      [(Num 1, Num 1, Num 1), (Num 1, Num (- 1), Num (- 1)), (Num (- 1), Num 1, Num (- 1)),
       (Num (- 1), Num (- 1), Num 1)]
      [(0, 1, 2), (0, 2, 3), (0, 3, 1), (1, 3, 2)] =
     Inr [Some (vec3_normalize ieee (Num (- 24), Num (- 24), Num (- 24))),
          Some (vec3_normalize ieee (Num (- 8), Num (- 24), Num (- 8))),
          Some (vec3_normalize ieee (Num (- 8), Num (- 24), Num (- 8))),
          Some (vec3_normalize ieee (Num (- 8), Num (- 24), Num (- 8)))]"
proof -
  have u: "[0..<length [(Num 1, Num 1, Num 1), (Num 1, Num (- 1), Num (- 1)),
         (Num (- 1), Num 1, Num (- 1)), (Num (- 1), Num (- 1), Num 1)]] = [0, 1, 2, 3]"
    by (simp add: upt_rec)
  show ?thesis
    unfolding vertexNormals_def tetra_adjacency tetra_faceVectors u
    by (simp add: tetra_sums [unfolded One_nat_def] del: vec3_normalize.simps sum_faceVecs.simps)
qed

lemma tetra_incident:
  "incident_sum ieee
      [(Num 1, Num 1, Num 1), (Num 1, Num (- 1), Num (- 1)), (Num (- 1), Num 1, Num (- 1)),
       (Num (- 1), Num (- 1), Num 1)]
      [(0, 1, 2), (0, 2, 3), (0, 3, 1), (1, 3, 2)] 0 = (Num 8, Num 8, Num 8)"
  by (simp add: incident_sum_def corner_def face_vector_def jsub_def binary64_int eval_nat_numeral)

text \<open>
  C3. For each vertex, \<^verbatim>\<open>vertexNormals\<close> should return the normalized sum of the raw face
  vectors of the triangles around the vertex. The array that \<^verbatim>\<open>faceVectors\<close> builds is
  keyed by point index and keeps, for each point, only the cross product of the last
  triangle with that corner; the adjacency entries are the indices of the neighbouring
  points, so the sum runs over the entries of the neighbours. On the regular tetrahedron
  with the corners \<open>(1,1,1)\<close>, \<open>(1,-1,-1)\<close>, \<open>(-1,1,-1)\<close>, \<open>(-1,-1,1)\<close> and outward
  faces, under IEEE-754 rounding, the sum at the corner \<open>(1,1,1)\<close> is \<open>(-24,-24,-24)\<close>,
  pointing into the solid, where the face vectors of its three triangles, each counted
  twice, add up to \<open>(8,8,8)\<close>.
\<close>

theorem vertexNormals_tetrahedron_inward:
  "faceVectors ieee
      [(Num 1, Num 1, Num 1), (Num 1, Num (- 1), Num (- 1)), (Num (- 1), Num 1, Num (- 1)),
       (Num (- 1), Num (- 1), Num 1)]
      [(0, 1, 2), (0, 2, 3), (0, 3, 1), (1, 3, 2)] =
     Inr [Some (Num 4, Num (- 4), Num 4), Some (Num (- 4), Num (- 4), Num (- 4)),
          Some (Num (- 4), Num (- 4), Num (- 4)), Some (Num (- 4), Num (- 4), Num (- 4))]
   \<and> adjacency_loop [(0, 1, 2), (0, 2, 3), (0, 3, 1), (1, 3, 2)] (replicate 4 []) =
     Inr [[1, 2, 2, 3, 3, 1], [0, 2, 0, 3, 3, 2], [0, 1, 0, 3, 1, 3], [0, 2, 0, 1, 1, 2]]
   \<and> vertexNormals ieee
      [(Num 1, Num 1, Num 1), (Num 1, Num (- 1), Num (- 1)), (Num (- 1), Num 1, Num (- 1)),
       (Num (- 1), Num (- 1), Num 1)]
      [(0, 1, 2), (0, 2, 3), (0, 3, 1), (1, 3, 2)] =
     Inr [Some (vec3_normalize ieee (Num (- 24), Num (- 24), Num (- 24))),
          Some (vec3_normalize ieee (Num (- 8), Num (- 24), Num (- 8))),
          Some (vec3_normalize ieee (Num (- 8), Num (- 24), Num (- 8))),
          Some (vec3_normalize ieee (Num (- 8), Num (- 24), Num (- 8)))]
   \<and> incident_sum ieee
      [(Num 1, Num 1, Num 1), (Num 1, Num (- 1), Num (- 1)), (Num (- 1), Num 1, Num (- 1)),
       (Num (- 1), Num (- 1), Num 1)]
      [(0, 1, 2), (0, 2, 3), (0, 3, 1), (1, 3, 2)] 0 = (Num 8, Num 8, Num 8)"
proof -
  have l: "length [(Num 1, Num 1, Num 1), (Num 1, Num (- 1), Num (- 1)),
      (Num (- 1), Num 1, Num (- 1)), (Num (- 1), Num (- 1), Num 1)] = 4"
    by simp
  note a = tetra_adjacency [unfolded l]
  show ?thesis
    by (intro conjI) (rule tetra_faceVectors a tetra_vertexNormals tetra_incident)+
qed

subsection \<open>surfaceVariation\<close>





















subsection \<open>centerPointCloud\<close>

lemma roundsD:
  "rounds a u \<eta> R \<Longrightarrow> \<bar>x\<bar> \<le> R \<Longrightarrow> \<exists>y. rnd a x = Num y \<and> \<bar>y - x\<bar> \<le> u * \<bar>x\<bar> + \<eta>"
  by (simp add: rounds_def)

lemma fl_sum:
  assumes r: "rounds a u \<eta> R" and u0: "0 \<le> u" and e0: "0 \<le> \<eta>" and B0: "0 \<le> B"
    and N: "real N * u \<le> 1 / 2" and W: "2 * real N * (B + \<eta>) \<le> R"
  shows "\<forall>x\<in>set xs. \<bar>x\<bar> \<le> B \<Longrightarrow> k + length xs \<le> N \<Longrightarrow>
     \<bar>s - S\<bar> \<le> real k * (u * (2 * real N * (B + \<eta>)) + \<eta>) \<Longrightarrow> \<bar>S\<bar> \<le> real k * B \<Longrightarrow>
     \<exists>t. foldl (jadd a) (Num s) (map Num xs) = Num t
        \<and> \<bar>t - (S + sum_list xs)\<bar> \<le> real (k + length xs) * (u * (2 * real N * (B + \<eta>)) + \<eta>)
        \<and> \<bar>S + sum_list xs\<bar> \<le> real (k + length xs) * B"
proof (induction xs arbitrary: s S k)
  case Nil
  then show ?case by simp
next
  case (Cons x xs)
  define Wd where "Wd = 2 * real N * (B + \<eta>)"
  define \<delta> where "\<delta> = u * Wd + \<eta>"
  have d0: "0 \<le> \<delta>" and W0: "0 \<le> Wd"
    using u0 e0 B0 by (simp_all add: \<delta>_def Wd_def)
  from Cons.prems have x: "\<bar>x\<bar> \<le> B" and xs: "\<forall>x\<in>set xs. \<bar>x\<bar> \<le> B"
    and k: "Suc k + length xs \<le> N" and k1: "real k + 1 \<le> real N"
    and s: "\<bar>s - S\<bar> \<le> real k * \<delta>" and S: "\<bar>S\<bar> \<le> real k * B"
    by (simp_all add: \<delta>_def Wd_def)
  have kB: "real k * B + B \<le> real N * B"
  proof -
    have "real k * B + B = (real k + 1) * B" by (simp add: algebra_simps)
    also have "\<dots> \<le> real N * B" using k1 B0 by (intro mult_right_mono) simp_all
    finally show ?thesis .
  qed
  have kd: "real k * \<delta> \<le> real N * \<delta>"
    using k1 d0 by (intro mult_right_mono) simp_all
  have "real N * \<delta> = (real N * u) * Wd + real N * \<eta>" by (simp add: \<delta>_def algebra_simps)
  also have "(real N * u) * Wd \<le> 1 / 2 * Wd" using N W0 by (intro mult_right_mono) simp_all
  finally have Nd: "real N * \<delta> \<le> Wd / 2 + real N * \<eta>" by simp
  have half: "real N * B + real N * \<eta> = Wd / 2" by (simp add: Wd_def algebra_simps)
  have "\<bar>s + x\<bar> \<le> \<bar>S\<bar> + \<bar>s - S\<bar> + \<bar>x\<bar>" by linarith
  also have "\<dots> \<le> real k * B + real k * \<delta> + B" using S s x by linarith
  also have "\<dots> \<le> Wd" using kB kd Nd half by linarith
  finally have sx: "\<bar>s + x\<bar> \<le> Wd" .
  with W have "\<bar>s + x\<bar> \<le> R" by (simp add: Wd_def)
  from roundsD [OF r this] obtain y where y: "rnd a (s + x) = Num y"
    and ye: "\<bar>y - (s + x)\<bar> \<le> u * \<bar>s + x\<bar> + \<eta>" by blast
  have "u * \<bar>s + x\<bar> \<le> u * Wd" using sx u0 by (intro mult_left_mono) simp_all
  with ye have yd: "\<bar>y - (s + x)\<bar> \<le> \<delta>" by (simp add: \<delta>_def)
  have s': "\<bar>y - (S + x)\<bar> \<le> real (Suc k) * \<delta>"
  proof -
    have "\<bar>y - (S + x)\<bar> \<le> \<bar>y - (s + x)\<bar> + \<bar>s - S\<bar>" by linarith
    also have "\<dots> \<le> \<delta> + real k * \<delta>" using yd s by linarith
    also have "\<dots> = real (Suc k) * \<delta>" by (simp add: algebra_simps)
    finally show ?thesis .
  qed
  have S': "\<bar>S + x\<bar> \<le> real (Suc k) * B"
  proof -
    have "\<bar>S + x\<bar> \<le> \<bar>S\<bar> + \<bar>x\<bar>" by linarith
    also have "\<dots> \<le> real k * B + B" using S x by linarith
    also have "\<dots> = real (Suc k) * B" by (simp add: algebra_simps)
    finally show ?thesis .
  qed
  from Cons.IH [OF xs k s' [unfolded \<delta>_def Wd_def] S']
  obtain t where t: "foldl (jadd a) (Num y) (map Num xs) = Num t"
    and te: "\<bar>t - (S + x + sum_list xs)\<bar> \<le> real (Suc k + length xs) * (u * (2 * real N * (B + \<eta>)) + \<eta>)"
    and Se: "\<bar>S + x + sum_list xs\<bar> \<le> real (Suc k + length xs) * B"
    by blast
  have "foldl (jadd a) (Num s) (map Num (x # xs)) = Num t"
    using t y by simp
  moreover have "S + x + sum_list xs = S + sum_list (x # xs)" by simp
  moreover have "Suc k + length xs = k + length (x # xs)" by simp
  ultimately show ?case using te Se by metis
qed

lemma fl_mean:
  assumes r: "rounds a u \<eta> R" and u0: "0 \<le> u" and e0: "0 \<le> \<eta>" and B0: "0 \<le> B"
    and ne: "xs \<noteq> []"
    and N: "real (length xs) * u \<le> 1 / 2" and W: "2 * real (length xs) * (B + \<eta>) \<le> R"
    and xs: "\<forall>x\<in>set xs. \<bar>x\<bar> \<le> B"
  shows "\<exists>m. jdiv a (foldl (jadd a) (Num 0) (map Num xs)) (Num (real (length xs))) = Num m
      \<and> \<bar>m - sum_list xs / real (length xs)\<bar> \<le>
          2 * (real (length xs) + 1) * u * (B + \<eta>) + 2 * \<eta>"
proof -
  define n where "n = real (length xs)"
  define Wd where "Wd = 2 * n * (B + \<eta>)"
  define \<delta> where "\<delta> = u * Wd + \<eta>"
  from ne have n1: "1 \<le> n" unfolding n_def by (cases xs) simp_all
  then have n0: "0 < n" by linarith
  have d0: "0 \<le> \<delta>" and W0: "0 \<le> Wd"
    using u0 e0 B0 n0 by (simp_all add: \<delta>_def Wd_def)
  from fl_sum [OF r u0 e0 B0 N W xs, of 0 0 0]
  obtain t where t: "foldl (jadd a) (Num 0) (map Num xs) = Num t"
    and te: "\<bar>t - sum_list xs\<bar> \<le> n * \<delta>" and Se: "\<bar>sum_list xs\<bar> \<le> n * B"
    by (auto simp: n_def \<delta>_def Wd_def)
  have "n * \<delta> = (n * u) * Wd + n * \<eta>" by (simp add: \<delta>_def algebra_simps)
  also have "(n * u) * Wd \<le> 1 / 2 * Wd" using N W0 unfolding n_def by (intro mult_right_mono) simp_all
  finally have Nd: "n * \<delta> \<le> Wd / 2 + n * \<eta>" by simp
  have half: "n * B + n * \<eta> = Wd / 2" by (simp add: Wd_def algebra_simps)
  have "\<bar>t\<bar> \<le> \<bar>sum_list xs\<bar> + \<bar>t - sum_list xs\<bar>" by linarith
  also have "\<dots> \<le> n * B + n * \<delta>" using te Se by linarith
  also have "\<dots> \<le> Wd" using Nd half by linarith
  finally have tW: "\<bar>t\<bar> \<le> Wd" .
  have tn: "\<bar>t / n\<bar> \<le> 2 * (B + \<eta>)"
  proof -
    have "\<bar>t / n\<bar> = \<bar>t\<bar> / n" using n0 by simp
    also have "\<dots> \<le> Wd / n" using tW n0 by (intro divide_right_mono) simp_all
    also have "\<dots> = 2 * (B + \<eta>)" using n0 by (simp add: Wd_def)
    finally show ?thesis .
  qed
  have "2 * (B + \<eta>) \<le> Wd"
  proof -
    have "2 * (B + \<eta>) * 1 \<le> 2 * (B + \<eta>) * n"
      using n1 B0 e0 by (intro mult_left_mono) simp_all
    then show ?thesis by (simp add: Wd_def algebra_simps)
  qed
  with tn W have "\<bar>t / n\<bar> \<le> R" unfolding Wd_def n_def by linarith
  from roundsD [OF r this] obtain m where m: "rnd a (t / n) = Num m"
    and me: "\<bar>m - t / n\<bar> \<le> u * \<bar>t / n\<bar> + \<eta>" by blast
  have "u * \<bar>t / n\<bar> \<le> u * (2 * (B + \<eta>))" using tn u0 by (intro mult_left_mono) simp_all
  with me have m1: "\<bar>m - t / n\<bar> \<le> 2 * u * (B + \<eta>) + \<eta>" by (simp add: algebra_simps)
  have m2: "\<bar>t / n - sum_list xs / n\<bar> \<le> \<delta>"
  proof -
    have "\<bar>t / n - sum_list xs / n\<bar> = \<bar>t - sum_list xs\<bar> / n"
      using n0 by (simp add: diff_divide_distrib [symmetric])
    also have "\<dots> \<le> n * \<delta> / n" using te n0 by (intro divide_right_mono) simp_all
    also have "\<dots> = \<delta>" using n0 by simp
    finally show ?thesis .
  qed
  have "\<bar>m - sum_list xs / n\<bar> \<le> \<bar>m - t / n\<bar> + \<bar>t / n - sum_list xs / n\<bar>" by linarith
  also have "\<dots> \<le> 2 * u * (B + \<eta>) + \<eta> + \<delta>" using m1 m2 by linarith
  also have "\<dots> = 2 * (n + 1) * u * (B + \<eta>) + 2 * \<eta>"
    by (simp add: \<delta>_def Wd_def algebra_simps)
  finally have "\<bar>m - sum_list xs / n\<bar> \<le> 2 * (n + 1) * u * (B + \<eta>) + 2 * \<eta>" .
  moreover have "jdiv a (foldl (jadd a) (Num 0) (map Num xs)) (Num n) = Num m"
    using t m n0 by simp
  ultimately show ?thesis unfolding n_def by blast
qed

lemma sum_list_abs_le:
  "\<forall>x\<in>set xs. \<bar>f x\<bar> \<le> c \<Longrightarrow> \<bar>sum_list (map f xs)\<bar> \<le> real (length xs) * c"
proof (induction xs)
  case Nil
  then show ?case by simp
next
  case (Cons x xs)
  then have "\<bar>f x\<bar> \<le> c" "\<bar>sum_list (map f xs)\<bar> \<le> real (length xs) * c" by simp_all
  then have "\<bar>f x + sum_list (map f xs)\<bar> \<le> c + real (length xs) * c" by linarith
  then show ?case by (simp add: algebra_simps)
qed

lemma sum_list_shift:
  "sum_list (map (\<lambda>x. x - m) xs) = sum_list xs - real (length xs) * m" for m :: real
  by (induction xs) (simp_all add: algebra_simps)

lemma axis_recentred:
  assumes ne: "xs \<noteq> []" and n32: "length xs \<le> 2 ^ 32" and B0: "0 \<le> B"
    and xs: "\<forall>x\<in>set xs. \<bar>x\<bar> \<le> B" and P: "real (length xs) * B \<le> 2 ^ 1019"
  shows "\<exists>m xs' m'.
      jdiv ieee (foldl (jadd ieee) (Num 0) (map Num xs)) (Num (real (length xs))) = Num m
    \<and> \<bar>m - mean xs\<bar> \<le> real (length xs) * B / 2 ^ 51 + 1 / 2 ^ 1073
    \<and> map (\<lambda>x. jsub ieee (Num x) (Num m)) xs = map Num xs'
    \<and> jdiv ieee (foldl (jadd ieee) (Num 0) (map Num xs')) (Num (real (length xs))) = Num m'
    \<and> \<bar>m'\<bar> \<le> real (length xs) * B / 2 ^ 48 + 1 / 2 ^ 1072"
proof -
  define n where "n = real (length xs)"
  define u :: real where "u = 1 / 2 ^ 53"
  define \<eta> :: real where "\<eta> = 1 / 2 ^ 1075"
  define Q where "Q = n * B"
  note r = rounds_ieee [folded u_def \<eta>_def]
  have u0: "0 \<le> u" and e0: "0 \<le> \<eta>" by (simp_all add: u_def \<eta>_def)
  from ne have n1: "1 \<le> n" unfolding n_def by (cases xs) simp_all
  from n32 have "real (length xs) \<le> real (2 ^ 32)" by (simp only: of_nat_le_iff)
  then have nb: "n \<le> 2 ^ 32" by (simp add: n_def)
  have Q0: "0 \<le> Q" and BQ: "B \<le> Q" and QB: "Q \<le> 2 ^ 32 * B" and Qb: "Q \<le> 2 ^ 1019"
  proof -
    show "0 \<le> Q" using n1 B0 by (simp add: Q_def)
    have "1 * B \<le> n * B" using n1 B0 by (intro mult_right_mono) simp_all
    then show "B \<le> Q" by (simp add: Q_def)
    show "Q \<le> 2 ^ 32 * B" unfolding Q_def using nb B0 by (intro mult_right_mono) simp_all
    show "Q \<le> 2 ^ 1019" using P by (simp add: Q_def n_def)
  qed
  have N1: "real (length xs) * u \<le> 1 / 2"
    using nb unfolding n_def [symmetric] u_def by simp
  have W1: "2 * real (length xs) * (B + \<eta>) \<le> 2 ^ 1023"
  proof -
    have "2 * n * (B + \<eta>) = 2 * Q + 2 * n * \<eta>" by (simp add: Q_def algebra_simps)
    also have "\<dots> \<le> 2 ^ 1023" using Qb nb unfolding \<eta>_def by simp
    finally show ?thesis by (simp add: n_def)
  qed
  from fl_mean [OF r u0 e0 B0 ne N1 W1 xs] obtain m where
    m: "jdiv ieee (foldl (jadd ieee) (Num 0) (map Num xs)) (Num n) = Num m"
    and me: "\<bar>m - sum_list xs / n\<bar> \<le> 2 * (n + 1) * u * (B + \<eta>) + 2 * \<eta>"
    unfolding n_def by blast
  define err1 where "err1 = 4 * u * Q + 3 * \<eta>"
  have e1: "2 * (n + 1) * u * (B + \<eta>) + 2 * \<eta> \<le> err1"
  proof -
    have "2 * (n + 1) * u * (B + \<eta>) + 2 * \<eta> = 2 * u * Q + 2 * u * B + 2 * u * \<eta> * n + 2 * u * \<eta> + 2 * \<eta>"
      by (simp add: Q_def algebra_simps)
    also have "\<dots> \<le> 4 * u * Q + 3 * \<eta>"
      using BQ nb n1 unfolding u_def \<eta>_def by simp
    finally show ?thesis by (simp add: err1_def)
  qed
  with me have me1: "\<bar>m - sum_list xs / n\<bar> \<le> err1" by linarith
  have Sn: "\<bar>sum_list xs / n\<bar> \<le> B"
  proof -
    from sum_list_abs_le [of xs "\<lambda>x. x" B] xs have "\<bar>sum_list xs\<bar> \<le> n * B" by (simp add: n_def)
    then have "\<bar>sum_list xs\<bar> / n \<le> n * B / n" using n1 by (intro divide_right_mono) simp_all
    then show ?thesis using n1 by simp
  qed
  from me1 Sn have mb: "\<bar>m\<bar> \<le> B + err1" by linarith
  define D where "D = 3 * B + 3 * \<eta>"
  have eD: "2 * B + err1 \<le> D"
    unfolding err1_def D_def using QB B0 unfolding u_def \<eta>_def by simp
  have DR: "D \<le> 2 ^ 1023"
    unfolding D_def using BQ Qb unfolding \<eta>_def by simp
  have D0: "0 \<le> D" unfolding D_def using B0 e0 by simp
  define \<rho> where "\<rho> = u * D + \<eta>"
  have dx: "\<bar>x - m\<bar> \<le> D" if "x \<in> set xs" for x
  proof -
    from xs that have "\<bar>x\<bar> \<le> B" by simp
    with mb eD show ?thesis by linarith
  qed
  have rx: "binary64 (x - m) = Num (rval (binary64 (x - m)))
      \<and> \<bar>rval (binary64 (x - m)) - (x - m)\<bar> \<le> \<rho>" if "x \<in> set xs" for x
  proof -
    from dx [OF that] DR have "\<bar>x - m\<bar> \<le> 2 ^ 1023" by linarith
    from roundsD [OF r this] obtain y where y: "rnd ieee (x - m) = Num y"
      and ye: "\<bar>y - (x - m)\<bar> \<le> u * \<bar>x - m\<bar> + \<eta>" by blast
    have "u * \<bar>x - m\<bar> \<le> u * D" using dx [OF that] u0 by (intro mult_left_mono) simp_all
    with y ye show ?thesis by (simp add: rval_def \<rho>_def)
  qed
  define xs' where "xs' = map (\<lambda>x. rval (binary64 (x - m))) xs"
  have map': "map (\<lambda>x. jsub ieee (Num x) (Num m)) xs = map Num xs'"
    unfolding xs'_def map_map o_def
  proof (rule map_cong [OF refl])
    fix x assume x: "x \<in> set xs"
    show "jsub ieee (Num x) (Num m) = Num (rval (binary64 (x - m)))"
      unfolding jsub_Num ieee_simps by (rule rx [OF x, THEN conjunct1])
  qed
  have len': "length xs' = length xs" by (simp add: xs'_def)
  have ne': "xs' \<noteq> []" using ne by (simp add: xs'_def)
  define B' where "B' = 4 * B + 5 * \<eta>"
  have B'0: "0 \<le> B'" unfolding B'_def using B0 e0 by simp
  have DB': "D + \<rho> \<le> B'"
  proof -
    have "u \<le> 1 / 4" by (simp add: u_def)
    then have "u * D \<le> 1 / 4 * D" using D0 by (intro mult_right_mono) simp_all
    then have "D + \<rho> \<le> D + D / 4 + \<eta>" by (simp add: \<rho>_def)
    also have "\<dots> \<le> B'" unfolding D_def B'_def using B0 e0 by (simp add: field_simps)
    finally show ?thesis .
  qed
  have xs'b: "\<forall>x\<in>set xs'. \<bar>x\<bar> \<le> B'"
  proof
    fix x' assume "x' \<in> set xs'"
    then obtain x where x: "x \<in> set xs" and x': "x' = rval (binary64 (x - m))"
      by (auto simp: xs'_def)
    from rx [OF x] dx [OF x] have "\<bar>x'\<bar> \<le> D + \<rho>" unfolding x' by linarith
    with DB' show "\<bar>x'\<bar> \<le> B'" by linarith
  qed
  have N2: "real (length xs') * u \<le> 1 / 2" using N1 by (simp add: len')
  have W2: "2 * real (length xs') * (B' + \<eta>) \<le> 2 ^ 1023"
  proof -
    have "2 * n * (B' + \<eta>) = 8 * Q + 12 * n * \<eta>" by (simp add: Q_def B'_def algebra_simps)
    also have "\<dots> \<le> 2 ^ 1023" using Qb nb unfolding \<eta>_def by simp
    finally show ?thesis by (simp add: n_def len')
  qed
  from fl_mean [OF r u0 e0 B'0 ne' N2 W2 xs'b] obtain m' where
    m': "jdiv ieee (foldl (jadd ieee) (Num 0) (map Num xs')) (Num n) = Num m'"
    and m'e: "\<bar>m' - sum_list xs' / n\<bar> \<le> 2 * (n + 1) * u * (B' + \<eta>) + 2 * \<eta>"
    unfolding n_def len' by blast
  define err2 where "err2 = 16 * u * Q + 3 * \<eta>"
  have e2: "2 * (n + 1) * u * (B' + \<eta>) + 2 * \<eta> \<le> err2"
  proof -
    have "2 * (n + 1) * u * (B' + \<eta>) + 2 * \<eta> =
        8 * u * Q + 8 * u * B + 12 * u * \<eta> * n + 12 * u * \<eta> + 2 * \<eta>"
      by (simp add: Q_def B'_def algebra_simps)
    also have "\<dots> \<le> 16 * u * Q + 3 * \<eta>"
      using BQ nb n1 unfolding u_def \<eta>_def by simp
    finally show ?thesis by (simp add: err2_def)
  qed
  have S': "\<bar>sum_list xs' / n\<bar> \<le> err1 + \<rho>"
  proof -
    have "sum_list xs' - (sum_list xs - n * m) =
        sum_list (map (\<lambda>x. rval (binary64 (x - m)) - (x - m)) xs)"
      unfolding xs'_def n_def sum_list_shift [symmetric]
      by (simp add: sum_list_subtractf o_def)
    moreover have "\<bar>sum_list (map (\<lambda>x. rval (binary64 (x - m)) - (x - m)) xs)\<bar> \<le> n * \<rho>"
      unfolding n_def using rx by (intro sum_list_abs_le) blast
    ultimately have "\<bar>sum_list xs' - (sum_list xs - n * m)\<bar> \<le> n * \<rho>" by simp
    then have "\<bar>sum_list xs' - (sum_list xs - n * m)\<bar> / n \<le> n * \<rho> / n"
      using n1 by (intro divide_right_mono) simp_all
    then have a: "\<bar>sum_list xs' / n - (sum_list xs / n - m)\<bar> \<le> \<rho>"
      using n1 by (simp add: diff_divide_distrib [symmetric] field_simps)
    from a me1 show ?thesis by linarith
  qed
  have "\<bar>m'\<bar> \<le> err2 + err1 + \<rho>" using m'e e2 S' by linarith
  also have "\<dots> \<le> Q / 2 ^ 48 + 1 / 2 ^ 1072"
  proof -
    define A where "A = u * Q"
    have A0: "0 \<le> A" using u0 Q0 by (simp add: A_def)
    have "u * B \<le> u * Q" using BQ u0 by (intro mult_left_mono) simp_all
    moreover have "u * \<eta> \<le> \<eta> / 4" using e0 by (simp add: u_def)
    moreover have "u * D = 3 * (u * B) + 3 * (u * \<eta>)" by (simp add: D_def algebra_simps)
    ultimately have "\<rho> \<le> 3 * A + 2 * \<eta>" unfolding \<rho>_def A_def using e0 by linarith
    moreover have "err1 = 4 * A + 3 * \<eta>" "err2 = 16 * A + 3 * \<eta>"
      by (simp_all add: err1_def err2_def A_def)
    moreover have "Q / 2 ^ 48 = 32 * A" by (simp add: A_def u_def)
    moreover have "1 / 2 ^ 1072 = 8 * \<eta>" by (simp add: \<eta>_def)
    ultimately show ?thesis using A0 e0 by linarith
  qed
  finally have fin: "\<bar>m'\<bar> \<le> n * B / 2 ^ 48 + 1 / 2 ^ 1072" by (simp add: Q_def)
  have "err1 \<le> Q / 2 ^ 51 + 1 / 2 ^ 1073"
  proof -
    have "4 * u * Q = Q / 2 ^ 51" by (simp add: u_def)
    moreover have "1 / 2 ^ 1073 = 4 * \<eta>" by (simp add: \<eta>_def)
    ultimately show ?thesis unfolding err1_def using e0 by linarith
  qed
  with me1 have "\<bar>m - mean xs\<bar> \<le> n * B / 2 ^ 51 + 1 / 2 ^ 1073"
    by (simp add: mean_def n_def Q_def)
  with fin m map' m' show ?thesis unfolding n_def by blast
qed

lemma foldl_cov_step_axes:
  "foldl (cov_step a) (sx, sy, sz) pts =
     (foldl (jadd a) sx (map fst pts), foldl (jadd a) sy (map (fst \<circ> snd) pts),
      foldl (jadd a) sz (map (snd \<circ> snd) pts))"
  by (induction pts arbitrary: sx sy sz) auto

lemma centerOfVolume_axes:
  "centerOfVolume a pts =
     (jdiv a (foldl (jadd a) (Num 0) (map fst pts)) (Num (real (length pts))),
      jdiv a (foldl (jadd a) (Num 0) (map (fst \<circ> snd) pts)) (Num (real (length pts))),
      jdiv a (foldl (jadd a) (Num 0) (map (snd \<circ> snd) pts)) (Num (real (length pts))))"
  by (simp add: centerOfVolume_def foldl_cov_step_axes Let_def)

lemma foldl_update_distinct:
  "distinct rs \<Longrightarrow>
   foldl (\<lambda>h r. h(r := f (h r))) heap rs = (\<lambda>r. if r \<in> set rs then f (heap r) else heap r)"
proof (induction rs arbitrary: heap)
  case Nil
  then show ?case by simp
next
  case (Cons r rs)
  then have d: "distinct rs" and n: "r \<notin> set rs" by simp_all
  show ?case
    unfolding foldl_Cons Cons.IH [OF d] using n by (auto simp: fun_eq_iff)
qed

lemma centerPointCloud_distinct:
  assumes "distinct points"
  shows "centerPointCloud a heap points =
     (\<lambda>r. if r \<in> set points then psub a (heap r) (centerOfVolume a (map heap points)) else heap r)"
proof -
  obtain cx cy cz where c: "centerOfVolume a (map heap points) = (cx, cy, cz)"
    by (cases "centerOfVolume a (map heap points)") auto
  have eq: "(\<lambda>h r. case h r of (px, py, pz) \<Rightarrow> h(r := (jsub a px cx, jsub a py cy, jsub a pz cz))) =
      (\<lambda>h r. h(r := psub a (h r) (cx, cy, cz)))"
    by (auto simp: fun_eq_iff split: prod.splits)
  show ?thesis
    unfolding centerPointCloud_def c prod.case eq by (rule foldl_update_distinct [OF assms])
qed

lemma fin_components [simp]:
  "fst (fin q) = Num (fst q)" "fst (snd (fin q)) = Num (fst (snd q))"
  "snd (snd (fin q)) = Num (snd (snd q))"
  by (cases q; simp add: fin_def)+

lemma psub_components:
  "fst (psub a q c) = jsub a (fst q) (fst c)"
  "fst (snd (psub a q c)) = jsub a (fst (snd q)) (fst (snd c))"
  "snd (snd (psub a q c)) = jsub a (snd (snd q)) (snd (snd c))"
  by (cases q; cases c; simp)+

text \<open>
  C6, as stated, fails. Two points \<open>(2\<^sup>1\<^sup>0\<^sup>2\<^sup>3, 0, 0)\<close>: the sum of the \<open>x\<close> coordinates
  overflows, the mean is \<^verbatim>\<open>Infinity\<close>, both points move to \<^verbatim>\<open>-Infinity\<close>, and the
  centroid computed again is \<open>(-\<infinity>, 0, 0)\<close>. One point object \<open>(1, 0, 0)\<close> standing
  twice in the array: the mean \<open>(1, 0, 0)\<close> is subtracted from it twice, and the centroid
  computed again is \<open>(-1, 0, 0)\<close>.
\<close>

theorem centroid_not_zero:
  "centerOfVolume ieee
     (map (centerPointCloud ieee (\<lambda>r. (Num (2 ^ 1023), Num 0, Num 0)) [0, 1]) [0, 1]) =
     (NInf, Num 0, Num 0)
   \<and> centerOfVolume ieee
     (map (centerPointCloud ieee (\<lambda>r. (Num 1, Num 0, Num 0)) [0, 0]) [0, 0]) =
     (Num (- 1), Num 0, Num 0)"
proof
  have c: "centerOfVolume ieee [(Num (2 ^ 1023), Num 0, Num 0), (Num (2 ^ 1023), Num 0, Num 0)] =
      (PInf, Num 0, Num 0)"
    unfolding centerOfVolume_def
    by (simp add: binary64_big [simplified] binary64_overflow [simplified] binary64_0)
  have m: "map (centerPointCloud ieee (\<lambda>r. (Num (2 ^ 1023), Num 0, Num 0)) [0, 1]) [0, 1] =
      [(NInf, Num 0, Num 0), (NInf, Num 0, Num 0)]"
    unfolding centerPointCloud_def list.map c
    by (simp add: jsub_def binary64_0)
  show "centerOfVolume ieee
     (map (centerPointCloud ieee (\<lambda>r. (Num (2 ^ 1023), Num 0, Num 0)) [0, 1]) [0, 1]) =
     (NInf, Num 0, Num 0)"
    unfolding m by (simp add: centerOfVolume_def binary64_0)
  have c2: "centerOfVolume ieee [(Num 1, Num 0, Num 0), (Num 1, Num 0, Num 0)] =
      (Num 1, Num 0, Num 0)"
    by (simp add: centerOfVolume_def binary64_int)
  have m2: "map (centerPointCloud ieee (\<lambda>r. (Num 1, Num 0, Num 0)) [0, 0]) [0, 0] =
      [(Num (- 1), Num 0, Num 0), (Num (- 1), Num 0, Num 0)]"
    unfolding centerPointCloud_def list.map c2
    by (simp add: binary64_int)
  show "centerOfVolume ieee
     (map (centerPointCloud ieee (\<lambda>r. (Num 1, Num 0, Num 0)) [0, 0]) [0, 0]) =
     (Num (- 1), Num 0, Num 0)"
    unfolding m2 by (simp add: centerOfVolume_def binary64_int)
qed

text \<open>
  C6, amended. Under IEEE-754 rounding, for a non-empty array of at most \<open>2\<^sup>3\<^sup>2\<close>
  different point objects with finite coordinates of magnitude at most \<open>B\<close>, where
  \<open>n B \<le> 2\<^sup>1\<^sup>0\<^sup>1\<^sup>9\<close> for the number \<open>n\<close> of points: the computed centroid is finite and
  within \<open>n B 2\<^sup>-\<^sup>5\<^sup>1 + 2\<^sup>-\<^sup>1\<^sup>0\<^sup>7\<^sup>3\<close> of the arithmetic mean on each axis;
  \<^verbatim>\<open>centerPointCloud\<close> subtracts it from every point of the array and leaves the rest of
  the store as it is; and the centroid computed again is finite and within
  \<open>n B 2\<^sup>-\<^sup>4\<^sup>8 + 2\<^sup>-\<^sup>1\<^sup>0\<^sup>7\<^sup>2\<close> of zero on each axis.
\<close>

theorem centerPointCloud_centroid:
  assumes ne: "points \<noteq> []" and d: "distinct points" and n32: "length points \<le> 2 ^ 32"
    and h: "\<forall>r\<in>set points. heap r = fin (p r) \<and> \<bar>fst (p r)\<bar> \<le> B
              \<and> \<bar>fst (snd (p r))\<bar> \<le> B \<and> \<bar>snd (snd (p r))\<bar> \<le> B"
    and P: "real (length points) * B \<le> 2 ^ 1019"
  shows "(\<exists>mx my mz.
            centerOfVolume ieee (map heap points) = (Num mx, Num my, Num mz)
          \<and> \<bar>mx - mean (map (\<lambda>r. fst (p r)) points)\<bar> \<le>
              real (length points) * B / 2 ^ 51 + 1 / 2 ^ 1073
          \<and> \<bar>my - mean (map (\<lambda>r. fst (snd (p r))) points)\<bar> \<le>
              real (length points) * B / 2 ^ 51 + 1 / 2 ^ 1073
          \<and> \<bar>mz - mean (map (\<lambda>r. snd (snd (p r))) points)\<bar> \<le>
              real (length points) * B / 2 ^ 51 + 1 / 2 ^ 1073)
       \<and> (\<forall>r. centerPointCloud ieee heap points r =
            (if r \<in> set points then psub ieee (heap r) (centerOfVolume ieee (map heap points))
             else heap r))
       \<and> (\<exists>cx cy cz.
            centerOfVolume ieee (map (centerPointCloud ieee heap points) points) =
              (Num cx, Num cy, Num cz)
          \<and> \<bar>cx\<bar> \<le> real (length points) * B / 2 ^ 48 + 1 / 2 ^ 1072
          \<and> \<bar>cy\<bar> \<le> real (length points) * B / 2 ^ 48 + 1 / 2 ^ 1072
          \<and> \<bar>cz\<bar> \<le> real (length points) * B / 2 ^ 48 + 1 / 2 ^ 1072)"
proof -
  note cpc = centerPointCloud_distinct [OF d, of ieee heap]
  have A: "\<forall>r. centerPointCloud ieee heap points r =
            (if r \<in> set points then psub ieee (heap r) (centerOfVolume ieee (map heap points))
             else heap r)"
    by (simp add: cpc)
  define tol where "tol = real (length points) * B / 2 ^ 48 + 1 / 2 ^ 1072"
  define tolm where "tolm = real (length points) * B / 2 ^ 51 + 1 / 2 ^ 1073"
  from ne obtain r0 where "r0 \<in> set points" by (cases points) auto
  with h have "\<bar>fst (p r0)\<bar> \<le> B" by blast
  then have B0: "0 \<le> B" by linarith
  have axis: "\<exists>m m'. jdiv ieee (foldl (jadd ieee) (Num 0) (map (\<lambda>r. Num (f (p r))) points))
          (Num (real (length points))) = Num m
      \<and> \<bar>m - mean (map (\<lambda>r. f (p r)) points)\<bar> \<le> tolm
      \<and> jdiv ieee (foldl (jadd ieee) (Num 0) (map (\<lambda>r. jsub ieee (Num (f (p r))) (Num m)) points))
          (Num (real (length points))) = Num m'
      \<and> \<bar>m'\<bar> \<le> tol"
    if f: "\<forall>r\<in>set points. \<bar>f (p r)\<bar> \<le> B" for f :: "real \<times> real \<times> real \<Rightarrow> real"
  proof -
    let ?xs = "map (\<lambda>r. f (p r)) points"
    have 1: "?xs \<noteq> []" using ne by simp
    have 2: "length ?xs \<le> 2 ^ 32" using n32 by simp
    have 3: "\<forall>x\<in>set ?xs. \<bar>x\<bar> \<le> B" using f by auto
    have 4: "real (length ?xs) * B \<le> 2 ^ 1019" using P by simp
    from axis_recentred [OF 1 2 B0 3 4] obtain m xs' m' where
      a: "jdiv ieee (foldl (jadd ieee) (Num 0) (map Num ?xs)) (Num (real (length ?xs))) = Num m"
      and g: "\<bar>m - mean ?xs\<bar> \<le> real (length ?xs) * B / 2 ^ 51 + 1 / 2 ^ 1073"
      and b: "map (\<lambda>x. jsub ieee (Num x) (Num m)) ?xs = map Num xs'"
      and c: "jdiv ieee (foldl (jadd ieee) (Num 0) (map Num xs')) (Num (real (length ?xs))) = Num m'"
      and e: "\<bar>m'\<bar> \<le> real (length ?xs) * B / 2 ^ 48 + 1 / 2 ^ 1072"
      by blast
    have b': "map (\<lambda>r. jsub ieee (Num (f (p r))) (Num m)) points = map Num xs'"
      using b by (simp only: map_map o_def)
    from a have a': "jdiv ieee (foldl (jadd ieee) (Num 0) (map (\<lambda>r. Num (f (p r))) points))
          (Num (real (length points))) = Num m"
      by (simp only: map_map o_def length_map)
    from c have c': "jdiv ieee (foldl (jadd ieee) (Num 0)
          (map (\<lambda>r. jsub ieee (Num (f (p r))) (Num m)) points)) (Num (real (length points))) = Num m'"
      by (simp only: b' length_map)
    from e have e': "\<bar>m'\<bar> \<le> tol" by (simp only: tol_def length_map)
    from g have "\<bar>m - mean ?xs\<bar> \<le> tolm" by (simp only: tolm_def length_map)
    with a' c' e' show ?thesis by blast
  qed
  from h have fx: "\<forall>r\<in>set points. \<bar>fst (p r)\<bar> \<le> B"
    and fy: "\<forall>r\<in>set points. \<bar>(fst \<circ> snd) (p r)\<bar> \<le> B"
    and fz: "\<forall>r\<in>set points. \<bar>(snd \<circ> snd) (p r)\<bar> \<le> B"
    by simp_all
  from axis [OF fx] obtain mx cx where
    x1: "jdiv ieee (foldl (jadd ieee) (Num 0) (map (\<lambda>r. Num (fst (p r))) points))
          (Num (real (length points))) = Num mx"
    and x0: "\<bar>mx - mean (map (\<lambda>r. fst (p r)) points)\<bar> \<le> tolm"
    and x2: "jdiv ieee (foldl (jadd ieee) (Num 0)
          (map (\<lambda>r. jsub ieee (Num (fst (p r))) (Num mx)) points)) (Num (real (length points))) = Num cx"
    and x3: "\<bar>cx\<bar> \<le> tol" by blast
  from axis [OF fy] obtain my cy where
    y1: "jdiv ieee (foldl (jadd ieee) (Num 0) (map (\<lambda>r. Num ((fst \<circ> snd) (p r))) points))
          (Num (real (length points))) = Num my"
    and y0: "\<bar>my - mean (map (\<lambda>r. (fst \<circ> snd) (p r)) points)\<bar> \<le> tolm"
    and y2: "jdiv ieee (foldl (jadd ieee) (Num 0)
          (map (\<lambda>r. jsub ieee (Num ((fst \<circ> snd) (p r))) (Num my)) points)) (Num (real (length points))) = Num cy"
    and y3: "\<bar>cy\<bar> \<le> tol" by blast
  from axis [OF fz] obtain mz cz where
    z1: "jdiv ieee (foldl (jadd ieee) (Num 0) (map (\<lambda>r. Num ((snd \<circ> snd) (p r))) points))
          (Num (real (length points))) = Num mz"
    and z0: "\<bar>mz - mean (map (\<lambda>r. (snd \<circ> snd) (p r)) points)\<bar> \<le> tolm"
    and z2: "jdiv ieee (foldl (jadd ieee) (Num 0)
          (map (\<lambda>r. jsub ieee (Num ((snd \<circ> snd) (p r))) (Num mz)) points)) (Num (real (length points))) = Num cz"
    and z3: "\<bar>cz\<bar> \<le> tol" by blast
  have hx: "map fst (map heap points) = map (\<lambda>r. Num (fst (p r))) points"
    and hy: "map (fst \<circ> snd) (map heap points) = map (\<lambda>r. Num ((fst \<circ> snd) (p r))) points"
    and hz: "map (snd \<circ> snd) (map heap points) = map (\<lambda>r. Num ((snd \<circ> snd) (p r))) points"
    using h by (simp_all cong: map_cong)
  have cov: "centerOfVolume ieee (map heap points) = (Num mx, Num my, Num mz)"
    unfolding centerOfVolume_axes hx hy hz length_map x1 y1 z1 ..
  have new: "map (centerPointCloud ieee heap points) points =
      map (\<lambda>r. psub ieee (heap r) (Num mx, Num my, Num mz)) points"
    unfolding cpc cov by (simp cong: map_cong)
  have nx: "map fst (map (\<lambda>r. psub ieee (heap r) (Num mx, Num my, Num mz)) points) =
      map (\<lambda>r. jsub ieee (Num (fst (p r))) (Num mx)) points"
    and ny: "map (fst \<circ> snd) (map (\<lambda>r. psub ieee (heap r) (Num mx, Num my, Num mz)) points) =
      map (\<lambda>r. jsub ieee (Num ((fst \<circ> snd) (p r))) (Num my)) points"
    and nz: "map (snd \<circ> snd) (map (\<lambda>r. psub ieee (heap r) (Num mx, Num my, Num mz)) points) =
      map (\<lambda>r. jsub ieee (Num ((snd \<circ> snd) (p r))) (Num mz)) points"
    using h by (simp_all add: psub_components del: jsub_Num cong: map_cong)
  have C: "centerOfVolume ieee (map (centerPointCloud ieee heap points) points) =
      (Num cx, Num cy, Num cz)"
    unfolding new centerOfVolume_axes nx ny nz length_map x2 y2 z2 ..
  from cov x0 y0 z0 have M: "\<exists>mx my mz.
            centerOfVolume ieee (map heap points) = (Num mx, Num my, Num mz)
          \<and> \<bar>mx - mean (map (\<lambda>r. fst (p r)) points)\<bar> \<le>
              real (length points) * B / 2 ^ 51 + 1 / 2 ^ 1073
          \<and> \<bar>my - mean (map (\<lambda>r. fst (snd (p r))) points)\<bar> \<le>
              real (length points) * B / 2 ^ 51 + 1 / 2 ^ 1073
          \<and> \<bar>mz - mean (map (\<lambda>r. snd (snd (p r))) points)\<bar> \<le>
              real (length points) * B / 2 ^ 51 + 1 / 2 ^ 1073"
    unfolding tolm_def o_def by blast
  from C x3 y3 z3 have Z: "\<exists>cx cy cz.
            centerOfVolume ieee (map (centerPointCloud ieee heap points) points) =
              (Num cx, Num cy, Num cz)
          \<and> \<bar>cx\<bar> \<le> real (length points) * B / 2 ^ 48 + 1 / 2 ^ 1072
          \<and> \<bar>cy\<bar> \<le> real (length points) * B / 2 ^ 48 + 1 / 2 ^ 1072
          \<and> \<bar>cz\<bar> \<le> real (length points) * B / 2 ^ 48 + 1 / 2 ^ 1072"
    unfolding tol_def by blast
  from M A Z show ?thesis by (intro conjI) assumption+
qed

theorem centerPointCloud_centroid_witness:
  "[0, 1 :: nat] \<noteq> [] \<and> distinct [0, 1 :: nat] \<and> length [0, 1 :: nat] \<le> 2 ^ 32
   \<and> real (length [0, 1 :: nat]) * 6 \<le> 2 ^ 1019
   \<and> centerOfVolume ieee [(Num 0, Num 0, Num 0), (Num 2, Num 4, Num 6)] = (Num 1, Num 2, Num 3)
   \<and> map (centerPointCloud ieee
        (\<lambda>r. if r = 0 then (Num 0, Num 0, Num 0) else (Num 2, Num 4, Num 6)) [0, 1]) [0, 1] =
       [(Num (- 1), Num (- 2), Num (- 3)), (Num 1, Num 2, Num 3)]
   \<and> (\<exists>mx my mz.
        centerOfVolume ieee [(Num 0, Num 0, Num 0), (Num 2, Num 4, Num 6)] = (Num mx, Num my, Num mz)
      \<and> \<bar>mx - 1\<bar> \<le> 2 * 6 / 2 ^ 51 + 1 / 2 ^ 1073
      \<and> \<bar>my - 2\<bar> \<le> 2 * 6 / 2 ^ 51 + 1 / 2 ^ 1073
      \<and> \<bar>mz - 3\<bar> \<le> 2 * 6 / 2 ^ 51 + 1 / 2 ^ 1073)
   \<and> (\<exists>cx cy cz.
        centerOfVolume ieee (map (centerPointCloud ieee
          (\<lambda>r. if r = 0 then (Num 0, Num 0, Num 0) else (Num 2, Num 4, Num 6)) [0, 1]) [0, 1]) =
          (Num cx, Num cy, Num cz)
      \<and> \<bar>cx\<bar> \<le> 2 * 6 / 2 ^ 48 + 1 / 2 ^ 1072
      \<and> \<bar>cy\<bar> \<le> 2 * 6 / 2 ^ 48 + 1 / 2 ^ 1072
      \<and> \<bar>cz\<bar> \<le> 2 * 6 / 2 ^ 48 + 1 / 2 ^ 1072)"
proof -
  let ?H = "\<lambda>r :: nat. if r = 0 then (Num 0, Num 0, Num 0) else (Num 2, Num 4, Num 6)"
  let ?p = "\<lambda>r :: nat. if r = 0 then (0, 0, 0) else (2, 4, 6) :: real \<times> real \<times> real"
  have 1: "[0, 1 :: nat] \<noteq> []" and 2: "distinct [0, 1 :: nat]"
    and 3: "length [0, 1 :: nat] \<le> 2 ^ 32" and 5: "real (length [0, 1 :: nat]) * 6 \<le> 2 ^ 1019"
    by simp_all
  have 4: "\<forall>r\<in>set [0, 1 :: nat]. ?H r = fin (?p r) \<and> \<bar>fst (?p r)\<bar> \<le> 6
              \<and> \<bar>fst (snd (?p r))\<bar> \<le> 6 \<and> \<bar>snd (snd (?p r))\<bar> \<le> 6"
    by (simp add: fin_def)
  note th = centerPointCloud_centroid [OF 1 2 3 4 5]
  have c: "centerOfVolume ieee [(Num 0, Num 0, Num 0), (Num 2, Num 4, Num 6)] = (Num 1, Num 2, Num 3)"
    by (simp add: centerOfVolume_def binary64_int)
  have mh: "map ?H [0, 1] = [(Num 0, Num 0, Num 0), (Num 2, Num 4, Num 6)]" by simp
  have m: "map (centerPointCloud ieee ?H [0, 1]) [0, 1] =
       [(Num (- 1), Num (- 2), Num (- 3)), (Num 1, Num 2, Num 3)]"
    using th [THEN conjunct2, THEN conjunct1] unfolding mh c by (simp add: binary64_int)
  have l: "real (length [0, 1 :: nat]) * 6 = 2 * 6" by simp
  have mn: "mean (map (\<lambda>r. fst (?p r)) [0, 1]) = 1" "mean (map (\<lambda>r. fst (snd (?p r))) [0, 1]) = 2"
    "mean (map (\<lambda>r. snd (snd (?p r))) [0, 1]) = 3"
    by (simp_all add: mean_def)
  from 1 2 3 5 c m th [THEN conjunct1, unfolded l mh mn]
    th [THEN conjunct2, THEN conjunct2, unfolded l] show ?thesis
    by (intro conjI) assumption+
qed

subsection \<open>surfaceOrientation\<close>

text \<open>
  In exact arithmetic the value pushed for a normal with finite \<open>x\<close> and \<open>y\<close>, not both
  zero, is one of the eight levels: \<open>atan2\<close> lies in \<open>(-\<pi>, \<pi>]\<close>, the wrapped angle in
  \<open>[0, 2\<pi>)\<close>, and the region number in \<open>0, \<dots>, 7\<close>.
\<close>

lemma atan2_range: "- pi < atan2 y x \<and> atan2 y x \<le> pi"
proof -
  note b = arctan_lbound [of "y / x"] arctan_ubound [of "y / x"]
  have pp: "0 < pi" by simp
  consider "0 < x" | "x < 0" "0 \<le> y" | "x < 0" "y < 0" | "x = 0" by linarith
  then show ?thesis
  proof cases
    case 1
    then have "atan2 y x = arctan (y / x)" by (simp add: atan2_def)
    with b pp show ?thesis by linarith
  next
    case 2
    then have "y / x \<le> 0" by (simp add: divide_nonneg_neg)
    then have "arctan (y / x) \<le> 0" by simp
    moreover from 2 have "atan2 y x = arctan (y / x) + pi" by (simp add: atan2_def)
    ultimately show ?thesis using b pp by linarith
  next
    case 3
    then have "0 < y / x" by (simp add: divide_neg_neg)
    then have "0 < arctan (y / x)" by simp
    moreover from 3 have "atan2 y x = arctan (y / x) - pi" by (simp add: atan2_def)
    ultimately show ?thesis using b pp by linarith
  next
    case 4
    then have "atan2 y x = pi / 2 \<or> atan2 y x = - (pi / 2) \<or> atan2 y x = 0"
      by (simp add: atan2_def)
    with pp show ?thesis by linarith
  qed
qed

lemma orientation_region_exact:
  assumes "i + 1 < length norms" and "norms ! i = Num x" and "norms ! (i + 1) = Num y"
    and "x \<noteq> 0 \<or> y \<noteq> 0"
  shows "\<exists>k. 0 \<le> k \<and> k \<le> 7 \<and> orientation_region exact norms i = Num (of_int k / 7)"
proof -
  define len where "len = sqrt (x * x + y * y)"
  have "0 < x * x + y * y"
    using assms(4) by (metis add_pos_nonneg add_nonneg_pos zero_le_square not_real_square_gt_zero)
  then have len: "0 < len" and nn: "\<not> x * x + y * y < 0"
    using assms(4) by (auto simp: len_def)
  define t where "t = atan2 (y / len) (x / len)"
  define \<theta> where "\<theta> = (if t < 0 then t + pi * 2 else t)"
  define k where "k = \<lfloor>\<theta> / (2 * pi / 8)\<rfloor>"
  from atan2_range [of "y / len" "x / len"] have t: "- pi < t" "t \<le> pi" by (simp_all add: t_def)
  have pp: "0 < pi" by simp
  from t pp have th: "0 \<le> \<theta>" "\<theta> < 2 * pi" by (auto simp: \<theta>_def)
  from th pp have q: "0 \<le> \<theta> / (2 * pi / 8)" "\<theta> / (2 * pi / 8) < 8"
    by (simp_all add: field_simps)
  then have k: "0 \<le> k" "k \<le> 7"
    unfolding k_def by (simp, simp add: floor_le_iff)
  have n: "num_at norms i = Num x" "num_at norms (i + 1) = Num y"
    using assms(1-3) by (simp_all add: num_at_def js_index_def)
  have nrm: "vec2_normalize exact (Num x, Num y) = (Num (x / len), Num (y / len))"
    using len nn assms(4) by (auto simp: len_def)
  have at: "jatan2 exact (Num (y / len)) (Num (x / len)) = Num t"
    by (simp add: t_def)
  have clamp: "angleRangeClamp exact (Num t) = Num \<theta>"
    using t pp by (simp add: angleRangeClamp_def jgt_def \<theta>_def)
  have reg: "jdiv exact (Num \<theta>) (jdiv exact (jmul exact (Num 2) (Math_PI exact)) (Num 8)) =
      Num (\<theta> / (2 * pi / 8))"
    using pp by simp
  have fl: "jfloor (Num (\<theta> / (2 * pi / 8))) = Num (of_int k)"
    by (simp add: k_def)
  have last: "jdiv exact (Num (of_int k)) (jsub exact (Num 8) (Num 1)) = Num (of_int k / 7)"
    by simp
  have "orientation_region exact norms i = Num (of_int k / 7)"
    unfolding orientation_region_def Let_def
    by (simp only: n vec2_fromValues_def nrm fst_conv snd_conv at clamp reg fl last)
  with k show ?thesis by blast
qed

text \<open>
  C5. Every value of \<^verbatim>\<open>surfaceOrientation\<close> should be one of the eight levels \<open>0/7\<close>, ...,
  \<open>7/7\<close>. Under IEEE-754 rounding the normal \<open>(1, -2\<^sup>-\<^sup>6\<^sup>0, 0)\<close> gives a ninth value, the
  double nearest to \<open>8/7\<close>: the angle \<open>-2\<^sup>-\<^sup>6\<^sup>0\<close> is negative, \<^verbatim>\<open>angleRangeClamp\<close> adds
  \<open>2\<pi>\<close> to it, the sum rounds to \<open>2\<pi>\<close> itself, and the region number is \<open>8\<close>.
\<close>

theorem surfaceOrientation_ninth_level:
  "surfaceOrientation ieee [Num 1, Num (- (1 / 2 ^ 60)), Num 0] = [Num (5146971002709138 / 2 ^ 52)]
   \<and> (1 :: real) < 5146971002709138 / 2 ^ 52"
proof
  show "surfaceOrientation ieee [Num 1, Num (- (1 / 2 ^ 60)), Num 0] =
      [Num (5146971002709138 / 2 ^ 52)]"
    unfolding surfaceOrientation_def
    by (subst surfaceOrientation_loop.simps, simp only: orientation_region_example,
        subst surfaceOrientation_loop.simps, simp)
  show "(1 :: real) < 5146971002709138 / 2 ^ 52" by simp
qed

lemma binary64_2: "binary64 2 = Num 2"
  using binary64_eval [of 1 2 "2 ^ 52"] by (simp add: powr_neg_numeral)

lemma binary64_4: "binary64 4 = Num 4"
  using binary64_eval [of 2 4 "2 ^ 52"] by (simp add: powr_neg_numeral)

lemma binary64_6: "binary64 6 = Num 6"
  using binary64_eval [of 2 6 "6 * 2 ^ 50"] by (simp add: powr_neg_numeral)

lemma binary64_12: "binary64 12 = Num 12"
  using binary64_eval [of 3 12 "12 * 2 ^ 49"] by (simp add: powr_neg_numeral)

text \<open>
  C1. The center of the box should be \<open>(min + max) / 2\<close> on each axis. The source
  returns \<open>min + max / 2\<close>: on the two points \<open>(2,4,6)\<close> and \<open>(4,8,12)\<close> the
  extrema are right and the center comes out as \<open>(4,8,12)\<close>, not \<open>(3,6,9)\<close>, in exact
  arithmetic and under IEEE-754 rounding alike.
\<close>

theorem getAabb_center_precedence:
  "getAabb exact [(Num 2, Num 4, Num 6), (Num 4, Num 8, Num 12)] =
     \<lparr>aabb_min = (Num 2, Num 4, Num 6),
      aabb_max = (Num 4, Num 8, Num 12),
      aabb_center = (Num 4, Num 8, Num 12),
      aabb_length = Num (sqrt 56)\<rparr>
   \<and> aabb_min (getAabb ieee [(Num 2, Num 4, Num 6), (Num 4, Num 8, Num 12)]) = (Num 2, Num 4, Num 6)
   \<and> aabb_max (getAabb ieee [(Num 2, Num 4, Num 6), (Num 4, Num 8, Num 12)]) = (Num 4, Num 8, Num 12)
   \<and> aabb_center (getAabb ieee [(Num 2, Num 4, Num 6), (Num 4, Num 8, Num 12)]) =
       (Num 4, Num 8, Num 12)"
  by (simp add: getAabb_def jgt_def Let_def binary64_2 binary64_4 binary64_6 binary64_8 binary64_12)

end
